theory Spec2Isabelle
  imports Main
begin

section \<open>Data model (src/lib/types.ts)\<close>

text \<open>
  An \<open>ObjectId\<close> is an opaque identity; \<open>new ObjectId()\<close> is drawn from a
  generator, modelled as a counter kept beside the two collections. A \<open>Date\<close> is a
  point in time, counted in milliseconds. A step is a JavaScript number; the handlers
  only ever compare and increment it, so it is an integer here.
\<close>

type_synonym ObjectId = nat
type_synonym Date = nat
type_synonym Payload = "(string \<times> string) list"

datatype MissionStatus = st_running | st_done | st_failed

datatype AgentType = Planner | Researcher | Executor | Critic

datatype EventType =
  PLAN | ASSIGN | TOOL_CALL | TOOL_RESULT | CHECKPOINT | NOTE | FAIL | RETRY | DONE

datatype RunMode = rm_scripted | rm_real

datatype Source = src_scripted | src_openai | src_fallback

record Mission =
  mission_id :: ObjectId
  title :: string
  status :: MissionStatus
  currentStep :: int
  createdAt :: Date
  updatedAt :: Date
  lastCheckpointAt :: "Date option"
  latestSummary :: "string option"
  branchFromMissionId :: "ObjectId option"
  branchFromStep :: "int option"
  runMode :: "RunMode option"

record MissionEvent =
  event_id :: ObjectId
  missionId :: ObjectId
  ts :: Date
  step :: int
  agent :: AgentType
  type :: EventType
  summary :: string
  payload :: Payload
  source :: "Source option"

section \<open>Step schedule (src/lib/types.ts, stepSchedule)\<close>

record StepSchedule =
  sched_step :: int
  sched_agent :: AgentType
  sched_type :: EventType

definition stepSchedule :: "StepSchedule list" where
  "stepSchedule =
    [\<lparr>sched_step = 1, sched_agent = Planner, sched_type = PLAN\<rparr>,
     \<lparr>sched_step = 2, sched_agent = Planner, sched_type = ASSIGN\<rparr>,
     \<lparr>sched_step = 3, sched_agent = Researcher, sched_type = TOOL_CALL\<rparr>,
     \<lparr>sched_step = 4, sched_agent = Researcher, sched_type = TOOL_RESULT\<rparr>,
     \<lparr>sched_step = 5, sched_agent = Critic, sched_type = NOTE\<rparr>,
     \<lparr>sched_step = 6, sched_agent = Planner, sched_type = CHECKPOINT\<rparr>,
     \<lparr>sched_step = 7, sched_agent = Executor, sched_type = TOOL_CALL\<rparr>,
     \<lparr>sched_step = 8, sched_agent = Executor, sched_type = TOOL_RESULT\<rparr>,
     \<lparr>sched_step = 9, sched_agent = Researcher, sched_type = FAIL\<rparr>,
     \<lparr>sched_step = 10, sched_agent = Executor, sched_type = RETRY\<rparr>,
     \<lparr>sched_step = 11, sched_agent = Executor, sched_type = TOOL_RESULT\<rparr>,
     \<lparr>sched_step = 12, sched_agent = Critic, sched_type = NOTE\<rparr>,
     \<lparr>sched_step = 13, sched_agent = Planner, sched_type = CHECKPOINT\<rparr>,
     \<lparr>sched_step = 14, sched_agent = Executor, sched_type = TOOL_CALL\<rparr>,
     \<lparr>sched_step = 15, sched_agent = Executor, sched_type = TOOL_RESULT\<rparr>,
     \<lparr>sched_step = 16, sched_agent = Critic, sched_type = NOTE\<rparr>,
     \<lparr>sched_step = 17, sched_agent = Planner, sched_type = DONE\<rparr>]"

definition getScheduleForStep :: "int \<Rightarrow> StepSchedule option" where
  "getScheduleForStep n = find (\<lambda>s. sched_step s = n) stepSchedule"

definition getAgentAndTypeForStep :: "int \<Rightarrow> (AgentType \<times> EventType) option" where
  "getAgentAndTypeForStep n =
     (case getScheduleForStep n of
        None \<Rightarrow> None
      | Some sc \<Rightarrow> Some (sched_agent sc, sched_type sc))"

definition isFinalStep :: "int \<Rightarrow> bool" where
  "isFinalStep n =
     (case getScheduleForStep n of None \<Rightarrow> False | Some sc \<Rightarrow> sched_type sc = DONE)"

definition getTotalSteps :: int where
  "getTotalSteps = int (length stepSchedule)"

section \<open>Default content provider (src/lib/demoScript.ts)\<close>

record DemoEvent =
  demo_step :: int
  demo_agent :: AgentType
  demo_type :: EventType
  demo_summary :: string
  demo_payload :: Payload
  delayMs :: nat

definition demoScript :: "DemoEvent list" where
  "demoScript =
    [\<lparr>demo_step = 1, demo_agent = Planner, demo_type = PLAN,
      demo_summary = ''Mission initialized: Research and summarize latest AI trends'',
      demo_payload = [(''objective'', ''AI Trends Research''), (''estimatedSteps'', ''16'')],
      delayMs = 0\<rparr>,
     \<lparr>demo_step = 2, demo_agent = Planner, demo_type = ASSIGN,
      demo_summary = ''Assigned Researcher to gather data from academic sources'',
      demo_payload = [(''assignee'', ''Researcher''), (''task'', ''academic_search'')],
      delayMs = 2500\<rparr>,
     \<lparr>demo_step = 3, demo_agent = Researcher, demo_type = TOOL_CALL,
      demo_summary = ''Querying ArXiv API for recent transformer papers'',
      demo_payload = [(''tool'', ''arxiv_search''), (''query'', ''transformers 2024'')],
      delayMs = 2000\<rparr>,
     \<lparr>demo_step = 4, demo_agent = Researcher, demo_type = TOOL_RESULT,
      demo_summary = ''Found 47 relevant papers on attention mechanisms'',
      demo_payload = [(''resultCount'', ''47''),
        (''topPapers'', ''Attention Is Still All You Need, Mamba: Linear-Time Sequence Modeling'')],
      delayMs = 3000\<rparr>,
     \<lparr>demo_step = 5, demo_agent = Researcher, demo_type = NOTE,
      demo_summary = ''Key trend identified: State-space models challenging transformers'',
      demo_payload = [(''insight'', ''SSM architectures gaining traction'')],
      delayMs = 2000\<rparr>,
     \<lparr>demo_step = 6, demo_agent = Planner, demo_type = CHECKPOINT,
      demo_summary =
        ''Checkpoint: Research phase 1 complete. 47 papers collected, SSM trend identified.'',
      demo_payload = [(''phase'', ''1''), (''papersCollected'', ''47'')],
      delayMs = 2500\<rparr>,
     \<lparr>demo_step = 7, demo_agent = Executor, demo_type = TOOL_CALL,
      demo_summary = ''Summarizing top 10 papers using extraction pipeline'',
      demo_payload = [(''tool'', ''summarizer''), (''inputCount'', ''10'')],
      delayMs = 3000\<rparr>,
     \<lparr>demo_step = 8, demo_agent = Executor, demo_type = TOOL_RESULT,
      demo_summary = ''Generated summaries for all 10 papers'',
      demo_payload = [(''summariesGenerated'', ''10''), (''avgLength'', ''250'')],
      delayMs = 2500\<rparr>,
     \<lparr>demo_step = 9, demo_agent = Executor, demo_type = FAIL,
      demo_summary = ''Failed to connect to external citation service (timeout)'',
      demo_payload = [(''error'', ''ETIMEDOUT''), (''service'', ''citation_api'')],
      delayMs = 3000\<rparr>,
     \<lparr>demo_step = 10, demo_agent = Executor, demo_type = RETRY,
      demo_summary = ''Retrying citation lookup with fallback service'',
      demo_payload = [(''attempt'', ''2''), (''fallback'', ''semantic_scholar'')],
      delayMs = 2000\<rparr>,
     \<lparr>demo_step = 11, demo_agent = Executor, demo_type = TOOL_RESULT,
      demo_summary = ''Successfully retrieved citations via Semantic Scholar'',
      demo_payload = [(''citations'', ''156''), (''successfulRetry'', ''true'')],
      delayMs = 2500\<rparr>,
     \<lparr>demo_step = 12, demo_agent = Critic, demo_type = NOTE,
      demo_summary = ''Reviewing summary quality: 8/10 papers meet standards'',
      demo_payload = [(''approved'', ''8''), (''needsRevision'', ''2'')],
      delayMs = 2500\<rparr>,
     \<lparr>demo_step = 13, demo_agent = Planner, demo_type = CHECKPOINT,
      demo_summary =
        ''Checkpoint: Analysis complete. 8 quality summaries, 156 citations mapped.'',
      demo_payload = [(''phase'', ''2''), (''qualitySummaries'', ''8''),
        (''totalCitations'', ''156'')],
      delayMs = 3000\<rparr>,
     \<lparr>demo_step = 14, demo_agent = Executor, demo_type = TOOL_CALL,
      demo_summary = ''Generating final report with trend analysis'',
      demo_payload = [(''tool'', ''report_generator''), (''format'', ''markdown'')],
      delayMs = 2500\<rparr>,
     \<lparr>demo_step = 15, demo_agent = Executor, demo_type = TOOL_RESULT,
      demo_summary = ''Final report generated: 2,400 words with visualizations'',
      demo_payload = [(''wordCount'', ''2400''), (''charts'', ''3''), (''tables'', ''2'')],
      delayMs = 3000\<rparr>,
     \<lparr>demo_step = 16, demo_agent = Critic, demo_type = NOTE,
      demo_summary = ''Final review passed. Report is comprehensive and well-structured.'',
      demo_payload = [(''qualityScore'', ''9.2''), (''recommendation'', ''approved'')],
      delayMs = 2000\<rparr>,
     \<lparr>demo_step = 17, demo_agent = Planner, demo_type = DONE,
      demo_summary = ''Mission complete: AI Trends Report delivered successfully'',
      demo_payload = [(''totalDuration'', ''45s''), (''eventsProcessed'', ''17'')],
      delayMs = 2500\<rparr>]"

section \<open>The store (src/lib/mongo.ts)\<close>

text \<open>
  Two collections. \<open>missions\<close> is keyed by \<open>_id\<close>; \<open>events\<close> keeps its documents in
  insertion order. \<open>ensureIndexes\<close> puts a unique index on \<open>(missionId, step)\<close>, so
  \<open>insertOne\<close> fails with the duplicate-key error E11000 (here \<open>None\<close>) when a
  document with the same pair is already stored.
\<close>

record Db =
  missions :: "ObjectId \<rightharpoonup> Mission"
  events :: "MissionEvent list"
  oid_counter :: nat

definition new_ObjectId :: "Db \<Rightarrow> ObjectId \<times> Db" where
  "new_ObjectId s = (oid_counter s, s\<lparr>oid_counter := Suc (oid_counter s)\<rparr>)"

definition findEvent :: "ObjectId \<Rightarrow> int \<Rightarrow> Db \<Rightarrow> MissionEvent option" where
  "findEvent mid n s = find (\<lambda>e. missionId e = mid \<and> step e = n) (events s)"

definition insertOne :: "MissionEvent \<Rightarrow> Db \<Rightarrow> Db option" where
  "insertOne e s =
     (case findEvent (missionId e) (step e) s of
        Some _ \<Rightarrow> None
      | None \<Rightarrow> Some (s\<lparr>events := events s @ [e]\<rparr>))"

text \<open>
  An ordered \<open>insertMany\<close> inserts one document after the other and stops at the first
  duplicate-key error; what was inserted before stays. The flag tells whether all went in.
\<close>

fun insertMany :: "MissionEvent list \<Rightarrow> Db \<Rightarrow> bool \<times> Db" where
  "insertMany [] s = (True, s)"
| "insertMany (e # es) s =
     (case insertOne e s of None \<Rightarrow> (False, s) | Some s' \<Rightarrow> insertMany es s')"

definition insertMission :: "Mission \<Rightarrow> Db \<Rightarrow> Db" where
  "insertMission m s = s\<lparr>missions := (missions s)(mission_id m \<mapsto> m)\<rparr>"

text \<open>
  \<open>updateOne({_id}, {$set: updateFields})\<close>: the handlers build \<open>updateFields\<close> key by
  key, so each settable field is optional, and \<open>updatedAt\<close> is always set.
\<close>

record UpdateFields =
  set_updatedAt :: Date
  set_currentStep :: "int option"
  set_lastCheckpointAt :: "Date option"
  set_latestSummary :: "string option"
  set_status :: "MissionStatus option"

definition apply_set :: "UpdateFields \<Rightarrow> Mission \<Rightarrow> Mission" where
  "apply_set u m =
     m\<lparr>updatedAt := set_updatedAt u,
       currentStep := (case set_currentStep u of None \<Rightarrow> currentStep m | Some c \<Rightarrow> c),
       lastCheckpointAt :=
         (case set_lastCheckpointAt u of None \<Rightarrow> lastCheckpointAt m | Some t \<Rightarrow> Some t),
       latestSummary :=
         (case set_latestSummary u of None \<Rightarrow> latestSummary m | Some x \<Rightarrow> Some x),
       status := (case set_status u of None \<Rightarrow> status m | Some st \<Rightarrow> st)\<rparr>"

definition updateOne :: "ObjectId \<Rightarrow> UpdateFields \<Rightarrow> Db \<Rightarrow> Db" where
  "updateOne mid u s =
     (case missions s mid of
        None \<Rightarrow> s
      | Some m \<Rightarrow> s\<lparr>missions := (missions s)(mid \<mapsto> apply_set u m)\<rparr>)"

section \<open>Requests and replies\<close>

text \<open>
  A request carries the mission id as text. The handlers distinguish three shapes of it:
  absent or empty (\<open>!body.missionId\<close>), not accepted by \<open>ObjectId.isValid\<close>, and a
  well-formed id that \<open>new ObjectId(...)\<close> turns into an \<open>ObjectId\<close>.
\<close>

datatype IdInput = IdMissing | IdMalformed | IdOk ObjectId

datatype Error =
    MissingRequiredFields
  | InvalidMissionIdFormat
  | InvalidAgent
  | InvalidType
  | MissionNotFound
  | InvalidForkStep
  | NoEventsAtOrBeforeForkStep
  | StorageFailure

fun http_status :: "Error \<Rightarrow> nat" where
  "http_status MissingRequiredFields = 400"
| "http_status InvalidMissionIdFormat = 400"
| "http_status InvalidAgent = 400"
| "http_status InvalidType = 400"
| "http_status MissionNotFound = 404"
| "http_status InvalidForkStep = 400"
| "http_status NoEventsAtOrBeforeForkStep = 400"
| "http_status StorageFailure = 500"

section \<open>Starting a mission (src/app/api/missions/start/route.ts)\<close>

record StartMissionBody =
  start_title :: "string option"
  start_runMode :: "string option"

definition seedEvent :: "ObjectId \<Rightarrow> ObjectId \<Rightarrow> Date \<Rightarrow> MissionEvent" where
  "seedEvent eid mid now =
     \<lparr>event_id = eid, missionId = mid, ts = now, step = 1, agent = Planner, type = PLAN,
      summary = ''Mission initialized: Research and summarize latest AI trends'',
      payload = [(''objective'', ''AI Trends Research''), (''estimatedSteps'', ''17'')],
      source = Some src_scripted\<rparr>"

definition newMissionDoc :: "ObjectId \<Rightarrow> string \<Rightarrow> RunMode \<Rightarrow> Date \<Rightarrow> Mission" where
  "newMissionDoc mid t rm now =
     \<lparr>mission_id = mid, title = t, status = st_running, currentStep = 1,
      createdAt = now, updatedAt = now, lastCheckpointAt = None, latestSummary = None,
      branchFromMissionId = None, branchFromStep = None, runMode = Some rm\<rparr>"

definition startMission :: "Date \<Rightarrow> StartMissionBody \<Rightarrow> Db \<Rightarrow> (Error + ObjectId) \<times> Db" where
  "startMission now body s =
     (let rm = (if start_runMode body = Some ''real'' then rm_real else rm_scripted);
          t = (case start_title body of
                 None \<Rightarrow> ''AI Trends Research Mission''
               | Some x \<Rightarrow> if x = [] then ''AI Trends Research Mission'' else x);
          (mid, s1) = new_ObjectId s;
          s2 = insertMission (newMissionDoc mid t rm now) s1;
          (eid, s3) = new_ObjectId s2
      in case insertOne (seedEvent eid mid now) s3 of
           None \<Rightarrow> (Inl StorageFailure, s3)
         | Some s4 \<Rightarrow> (Inr mid, s4))"

section \<open>Emitting an event (the emit handler, POST /api/events/emit)\<close>

record EmitEventBody =
  body_missionId :: IdInput
  body_step :: int
  body_agent :: string
  body_type :: string
  body_summary :: string
  body_payload :: "Payload option"

definition validAgents :: "(string \<times> AgentType) list" where
  "validAgents =
     [(''Planner'', Planner), (''Researcher'', Researcher),
      (''Executor'', Executor), (''Critic'', Critic)]"

definition validTypes :: "(string \<times> EventType) list" where
  "validTypes =
     [(''PLAN'', PLAN), (''ASSIGN'', ASSIGN), (''TOOL_CALL'', TOOL_CALL),
      (''TOOL_RESULT'', TOOL_RESULT), (''CHECKPOINT'', CHECKPOINT), (''NOTE'', NOTE),
      (''FAIL'', FAIL), (''RETRY'', RETRY), (''DONE'', DONE)]"

datatype EmitReply = Accepted | Duplicate

text \<open>
  The validation block: the presence test \<open>!body.x\<close> is JavaScript falsiness, which
  for the step is exactly the number 0 and for a string is the empty string.
\<close>

definition emit_validate ::
    "EmitEventBody \<Rightarrow> Error + (ObjectId \<times> AgentType \<times> EventType)" where
  "emit_validate body =
     (if body_missionId body = IdMissing \<or> body_step body = 0 \<or> body_agent body = []
         \<or> body_type body = [] \<or> body_summary body = []
      then Inl MissingRequiredFields
      else case body_missionId body of
             IdMissing \<Rightarrow> Inl MissingRequiredFields
           | IdMalformed \<Rightarrow> Inl InvalidMissionIdFormat
           | IdOk mid \<Rightarrow>
               (case map_of validAgents (body_agent body) of
                  None \<Rightarrow> Inl InvalidAgent
                | Some ag \<Rightarrow>
                    (case map_of validTypes (body_type body) of
                       None \<Rightarrow> Inl InvalidType
                     | Some ty \<Rightarrow> Inr (mid, ag, ty))))"

definition emit_eventDoc ::
    "ObjectId \<Rightarrow> ObjectId \<Rightarrow> Date \<Rightarrow> AgentType \<Rightarrow> EventType \<Rightarrow> EmitEventBody \<Rightarrow> MissionEvent" where
  "emit_eventDoc eid mid now ag ty body =
     \<lparr>event_id = eid, missionId = mid, ts = now, step = body_step body, agent = ag,
      type = ty, summary = body_summary body,
      payload = (case body_payload body of None \<Rightarrow> [] | Some p \<Rightarrow> p),
      source = None\<rparr>"

definition emit_updateFields :: "Mission \<Rightarrow> Date \<Rightarrow> EventType \<Rightarrow> EmitEventBody \<Rightarrow> UpdateFields" where
  "emit_updateFields mission now ty body =
     \<lparr>set_updatedAt = now,
      set_currentStep =
        (if body_step body > currentStep mission then Some (body_step body) else None),
      set_lastCheckpointAt = (if ty = CHECKPOINT then Some now else None),
      set_latestSummary = (if ty = CHECKPOINT then Some (body_summary body) else None),
      set_status = (if ty = DONE then Some st_done else None)\<rparr>"

text \<open>
  The handler writes twice: first the event, then the mission. \<open>emit_insert\<close> is the
  handler up to and including the first write, and it returns what the second write
  needs; \<open>emitEvent\<close> is the whole handler. A process that dies between the two writes
  leaves the store as \<open>emit_insert\<close> returns it.
\<close>

definition emit_insert ::
    "Date \<Rightarrow> EmitEventBody \<Rightarrow> Db \<Rightarrow> (Error + EmitReply \<times> ObjectId \<times> UpdateFields) \<times> Db" where
  "emit_insert now body s =
     (case emit_validate body of
        Inl err \<Rightarrow> (Inl err, s)
      | Inr (mid, ag, ty) \<Rightarrow>
          (case missions s mid of
             None \<Rightarrow> (Inl MissionNotFound, s)
           | Some mission \<Rightarrow>
               (let (eid, s1) = new_ObjectId s
                in case insertOne (emit_eventDoc eid mid now ag ty body) s1 of
                     None \<Rightarrow> (Inr (Duplicate, mid, emit_updateFields mission now ty body), s1)
                   | Some s2 \<Rightarrow>
                       (Inr (Accepted, mid, emit_updateFields mission now ty body), s2))))"

definition emitEvent :: "Date \<Rightarrow> EmitEventBody \<Rightarrow> Db \<Rightarrow> (Error + EmitReply) \<times> Db" where
  "emitEvent now body s =
     (case emit_insert now body s of
        (Inl err, s1) \<Rightarrow> (Inl err, s1)
      | (Inr (Duplicate, mid, u), s1) \<Rightarrow> (Inr Duplicate, s1)
      | (Inr (Accepted, mid, u), s1) \<Rightarrow> (Inr Accepted, updateOne mid u s1))"

section \<open>The tick handler (src/app/api/agents/tick/route.ts)\<close>

text \<open>
  The content generator is an external service. What it would answer when asked is a
  parameter of the handler: \<open>None\<close> is the \<open>null\<close> that \<open>generateEventWithOpenAI\<close>
  returns when it is unconfigured or fails. Of \<open>artifactUpdate\<close> only
  \<open>artifactUpdate?.latestSummary\<close> is read. The context ranker only shapes the
  generator's input and writes nothing, so it does not appear.
\<close>

record LLMGeneratedEvent =
  llm_summary :: string
  llm_payload :: Payload
  llm_artifactUpdate :: "string option"

datatype TickReply =
    TickStatus MissionStatus
  | TickStep int Source "MissionEvent option"

fun agent_name :: "AgentType \<Rightarrow> string" where
  "agent_name Planner = ''Planner''"
| "agent_name Researcher = ''Researcher''"
| "agent_name Executor = ''Executor''"
| "agent_name Critic = ''Critic''"

fun type_name :: "EventType \<Rightarrow> string" where
  "type_name PLAN = ''PLAN''"
| "type_name ASSIGN = ''ASSIGN''"
| "type_name TOOL_CALL = ''TOOL_CALL''"
| "type_name TOOL_RESULT = ''TOOL_RESULT''"
| "type_name CHECKPOINT = ''CHECKPOINT''"
| "type_name NOTE = ''NOTE''"
| "type_name FAIL = ''FAIL''"
| "type_name RETRY = ''RETRY''"
| "type_name DONE = ''DONE''"

function string_of_nat :: "nat \<Rightarrow> string" where
  "string_of_nat n =
     (if n < 10 then [''0123456789'' ! n]
      else string_of_nat (n div 10) @ [''0123456789'' ! (n mod 10)])"
  by pat_completeness auto
termination
  by (relation "measure id") auto

declare string_of_nat.simps [simp del]

definition string_of_int :: "int \<Rightarrow> string" where
  "string_of_int i =
     (if i < 0 then CHR ''-'' # string_of_nat (nat (- i)) else string_of_nat (nat i))"

text \<open>Summary, payload, checkpoint artifact and provenance of the event to append.\<close>

definition tick_content ::
    "LLMGeneratedEvent option \<Rightarrow> int \<Rightarrow> AgentType \<Rightarrow> EventType
      \<Rightarrow> string \<times> Payload \<times> string option \<times> Source" where
  "tick_content llm nextStep ag ty =
     (case llm of
        Some r \<Rightarrow> (llm_summary r, llm_payload r, llm_artifactUpdate r, src_openai)
      | None \<Rightarrow>
          (case find (\<lambda>e. demo_step e = nextStep) demoScript of
             Some sc \<Rightarrow> (demo_summary sc, demo_payload sc, None, src_fallback)
           | None \<Rightarrow>
               (agent_name ag @ '' completed '' @ type_name ty @ '' for step ''
                  @ string_of_int nextStep,
                [(''step'', string_of_int nextStep), (''agent'', agent_name ag),
                 (''type'', type_name ty)],
                None, src_fallback)))"

definition tick_eventDoc ::
    "ObjectId \<Rightarrow> ObjectId \<Rightarrow> Date \<Rightarrow> int \<Rightarrow> AgentType \<Rightarrow> EventType \<Rightarrow> string \<Rightarrow> Payload
      \<Rightarrow> Source \<Rightarrow> MissionEvent" where
  "tick_eventDoc eid mid now nextStep ag ty sm pl used =
     \<lparr>event_id = eid, missionId = mid, ts = now, step = nextStep, agent = ag, type = ty,
      summary = sm, payload = pl, source = Some used\<rparr>"

definition tick_updateFields ::
    "Date \<Rightarrow> int \<Rightarrow> EventType \<Rightarrow> string \<Rightarrow> string option \<Rightarrow> UpdateFields" where
  "tick_updateFields now nextStep ty sm artifact =
     \<lparr>set_updatedAt = now,
      set_currentStep = Some nextStep,
      set_lastCheckpointAt = (if ty = CHECKPOINT then Some now else None),
      set_latestSummary =
        (if ty = CHECKPOINT
         then (case artifact of
                 None \<Rightarrow> Some sm
               | Some x \<Rightarrow> if x \<noteq> [] then Some x else Some sm)
         else None),
      set_status = (if ty = DONE \<or> isFinalStep nextStep then Some st_done else None)\<rparr>"

text \<open>
  As for emit, \<open>tick_insert\<close> is the handler through its first write; the reply it
  carries is final unless an update of the mission is still to come.
\<close>

definition tick_insert ::
    "Date \<Rightarrow> LLMGeneratedEvent option \<Rightarrow> IdInput \<Rightarrow> Db
      \<Rightarrow> (Error + TickReply \<times> (ObjectId \<times> UpdateFields) option) \<times> Db" where
  "tick_insert now llm mid_in s =
     (case mid_in of
        IdMissing \<Rightarrow> (Inl MissingRequiredFields, s)
      | IdMalformed \<Rightarrow> (Inl InvalidMissionIdFormat, s)
      | IdOk mid \<Rightarrow>
          (case missions s mid of
             None \<Rightarrow> (Inl MissionNotFound, s)
           | Some mission \<Rightarrow>
               if status mission \<noteq> st_running
               then (Inr (TickStatus (status mission), None), s)
               else
                 (let nextStep = currentStep mission + 1
                  in if nextStep > getTotalSteps then (Inr (TickStatus st_done, None), s)
                     else
                       (case getAgentAndTypeForStep nextStep of
                          None \<Rightarrow> (Inr (TickStatus (status mission), None), s)
                        | Some (ag, ty) \<Rightarrow>
                            (case findEvent mid nextStep s of
                               Some existingEvent \<Rightarrow>
                                 (Inr (TickStep nextStep
                                        (if source existingEvent = Some src_openai
                                         then src_openai else src_fallback)
                                        (Some existingEvent), None), s)
                             | None \<Rightarrow>
                                 (let (sm, pl, artifact, used) =
                                        tick_content llm nextStep ag ty;
                                      (eid, s1) = new_ObjectId s;
                                      eventDoc =
                                        tick_eventDoc eid mid now nextStep ag ty sm pl used
                                  in case insertOne eventDoc s1 of
                                       None \<Rightarrow>
                                         (Inr (TickStep nextStep src_fallback
                                                (findEvent mid nextStep s1), None), s1)
                                     | Some s2 \<Rightarrow>
                                         (Inr (TickStep nextStep used (Some eventDoc),
                                               Some (mid,
                                                 tick_updateFields now nextStep ty sm
                                                   artifact)), s2)))))))"

definition tick ::
    "Date \<Rightarrow> LLMGeneratedEvent option \<Rightarrow> IdInput \<Rightarrow> Db \<Rightarrow> (Error + TickReply) \<times> Db" where
  "tick now llm mid_in s =
     (case tick_insert now llm mid_in s of
        (Inl err, s1) \<Rightarrow> (Inl err, s1)
      | (Inr (reply, None), s1) \<Rightarrow> (Inr reply, s1)
      | (Inr (reply, Some (mid, u)), s1) \<Rightarrow> (Inr reply, updateOne mid u s1))"

text \<open>
  Calling tick repeatedly on one mission: each call has its own clock reading and its
  own answer of the generator.
\<close>

fun ticks :: "(Date \<times> LLMGeneratedEvent option) list \<Rightarrow> ObjectId \<Rightarrow> Db \<Rightarrow> Db" where
  "ticks [] mid s = s"
| "ticks ((now, llm) # rest) mid s = ticks rest mid (snd (tick now llm (IdOk mid) s))"

text \<open>The steps of a mission's events, in the order the events were inserted.\<close>

definition own_steps :: "Db \<Rightarrow> ObjectId \<Rightarrow> int list" where
  "own_steps s mid = map step (filter (\<lambda>e. missionId e = mid) (events s))"

section \<open>The fork handler (POST /api/missions/fork)\<close>

record ForkBody =
  parentMissionId :: IdInput
  forkStep :: int

definition parentEventsUpTo :: "ObjectId \<Rightarrow> int \<Rightarrow> Db \<Rightarrow> MissionEvent list" where
  "parentEventsUpTo pid k s =
     sort_key step (filter (\<lambda>e. missionId e = pid \<and> step e \<le> k) (events s))"

definition forkedEvent :: "ObjectId \<Rightarrow> ObjectId \<Rightarrow> MissionEvent \<Rightarrow> MissionEvent" where
  "forkedEvent eid newId e =
     \<lparr>event_id = eid, missionId = newId, ts = ts e, step = step e, agent = agent e,
      type = type e, summary = summary e, payload = payload e, source = None\<rparr>"

fun forkedEvents :: "ObjectId \<Rightarrow> MissionEvent list \<Rightarrow> Db \<Rightarrow> MissionEvent list \<times> Db" where
  "forkedEvents newId [] s = ([], s)"
| "forkedEvents newId (e # es) s =
     (let (eid, s1) = new_ObjectId s;
          (rest, s2) = forkedEvents newId es s1
      in (forkedEvent eid newId e # rest, s2))"

definition forkMissionDoc ::
    "ObjectId \<Rightarrow> ObjectId \<Rightarrow> Mission \<Rightarrow> MissionEvent list \<Rightarrow> Date \<Rightarrow> Mission" where
  "forkMissionDoc newId pid parentMission parentEvents now =
     (let actualForkStep = step (last parentEvents);
          lastCheckpoint = find (\<lambda>e. type e = CHECKPOINT) (rev parentEvents)
      in \<lparr>mission_id = newId,
          title = title parentMission @ '' (fork)'',
          status = st_running,
          currentStep = actualForkStep,
          createdAt = now,
          updatedAt = now,
          lastCheckpointAt = (case lastCheckpoint of None \<Rightarrow> None | Some c \<Rightarrow> Some (ts c)),
          latestSummary =
            (case lastCheckpoint of
               None \<Rightarrow> latestSummary parentMission
             | Some c \<Rightarrow>
                 if summary c \<noteq> [] then Some (summary c) else latestSummary parentMission),
          branchFromMissionId = Some pid,
          branchFromStep = Some actualForkStep,
          runMode = None\<rparr>)"

definition forkMission :: "Date \<Rightarrow> ForkBody \<Rightarrow> Db \<Rightarrow> (Error + ObjectId) \<times> Db" where
  "forkMission now body s =
     (case parentMissionId body of
        IdMissing \<Rightarrow> (Inl MissingRequiredFields, s)
      | IdMalformed \<Rightarrow> (Inl InvalidMissionIdFormat, s)
      | IdOk pid \<Rightarrow>
          if forkStep body < 1 then (Inl InvalidForkStep, s)
          else
            (case missions s pid of
               None \<Rightarrow> (Inl MissionNotFound, s)
             | Some parentMission \<Rightarrow>
                 (let parentEvents = parentEventsUpTo pid (forkStep body) s
                  in if parentEvents = [] then (Inl NoEventsAtOrBeforeForkStep, s)
                     else
                       (let (newId, s1) = new_ObjectId s;
                            s2 = insertMission
                                   (forkMissionDoc newId pid parentMission parentEvents now) s1;
                            (copies, s3) = forkedEvents newId parentEvents s2
                        in case insertMany copies s3 of
                             (False, s4) \<Rightarrow> (Inl StorageFailure, s4)
                           | (True, s4) \<Rightarrow> (Inr newId, s4)))))"

text \<open>What a copy shares with its source: everything but the two identities and the
  provenance.\<close>

definition event_content ::
    "MissionEvent \<Rightarrow> int \<times> AgentType \<times> EventType \<times> string \<times> Payload \<times> Date" where
  "event_content e = (step e, agent e, type e, summary e, payload e, ts e)"

section \<open>The aggregate and its folding rule\<close>

text \<open>
  The four fields of a mission document that the handlers derive from events.
\<close>

record Aggregate =
  agg_status :: MissionStatus
  agg_currentStep :: int
  agg_lastCheckpointAt :: "Date option"
  agg_latestSummary :: "string option"

definition cached :: "Mission \<Rightarrow> Aggregate" where
  "cached m =
     \<lparr>agg_status = status m, agg_currentStep = currentStep m,
      agg_lastCheckpointAt = lastCheckpointAt m, agg_latestSummary = latestSummary m\<rparr>"

text \<open>
  The folding rule of the emit handler (its \<open>updateFields\<close>), read as a function of the
  stored event: the counter only moves up, a checkpoint overwrites both checkpoint
  fields, a DONE event sets the status.
\<close>

definition fold_step :: "Aggregate \<Rightarrow> MissionEvent \<Rightarrow> Aggregate" where
  "fold_step a e =
     \<lparr>agg_status = (if type e = DONE then st_done else agg_status a),
      agg_currentStep = (if step e > agg_currentStep a then step e else agg_currentStep a),
      agg_lastCheckpointAt =
        (if type e = CHECKPOINT then Some (ts e) else agg_lastCheckpointAt a),
      agg_latestSummary =
        (if type e = CHECKPOINT then Some (summary e) else agg_latestSummary a)\<rparr>"

text \<open>The aggregate of a mission document as \<open>startMission\<close> creates it.\<close>

definition initialAggregate :: Aggregate where
  "initialAggregate =
     \<lparr>agg_status = st_running, agg_currentStep = 1,
      agg_lastCheckpointAt = None, agg_latestSummary = None\<rparr>"

definition fold_events :: "MissionEvent list \<Rightarrow> Aggregate" where
  "fold_events es = foldl fold_step initialAggregate es"

text \<open>
  The folding rule in the words of the specification (section 4.3), for comparison with
  \<open>fold_step\<close>: it also sets the status at the schedule's terminal step.
\<close>

definition spec_fold_step :: "Aggregate \<Rightarrow> MissionEvent \<Rightarrow> Aggregate" where
  "spec_fold_step a e =
     \<lparr>agg_status =
        (if type e = DONE \<or> step e = getTotalSteps then st_done else agg_status a),
      agg_currentStep = max (agg_currentStep a) (step e),
      agg_lastCheckpointAt =
        (if type e = CHECKPOINT then Some (ts e) else agg_lastCheckpointAt a),
      agg_latestSummary =
        (if type e = CHECKPOINT then Some (summary e) else agg_latestSummary a)\<rparr>"

definition spec_fold_events :: "MissionEvent list \<Rightarrow> Aggregate" where
  "spec_fold_events es = foldl spec_fold_step initialAggregate es"

text \<open>A mission's event history, ascending by step; the get handler reads it so, up to
  its limit of 200 events.\<close>

definition history :: "Db \<Rightarrow> ObjectId \<Rightarrow> MissionEvent list" where
  "history s mid = sort_key step (filter (\<lambda>e. missionId e = mid) (events s))"

definition cache_of :: "Db \<Rightarrow> ObjectId \<Rightarrow> Aggregate option" where
  "cache_of s mid = map_option cached (missions s mid)"

text \<open>
  The generator supplies no checkpoint artifact of its own: none, an empty one, or one
  equal to the summary it generated. Only then is the text the tick handler caches the
  text it stores in the event.
\<close>

definition no_override :: "LLMGeneratedEvent option \<Rightarrow> bool" where
  "no_override llm =
     (case llm of
        None \<Rightarrow> True
      | Some g \<Rightarrow>
          (case llm_artifactUpdate g of
             None \<Rightarrow> True
           | Some x \<Rightarrow> x = [] \<or> x = llm_summary g))"

text \<open>
  Two conditions on an append. The first: an appended checkpoint has no stored checkpoint
  above it in step order. The second: before the append, the cached aggregate and the
  fold agree in every field that an event of kind \<open>ty\<close> at step \<open>n\<close> does not overwrite.
\<close>

definition no_later_checkpoint :: "EventType \<Rightarrow> int \<Rightarrow> MissionEvent list \<Rightarrow> bool" where
  "no_later_checkpoint ty n es =
     (ty = CHECKPOINT \<longrightarrow> (\<forall>e\<in>set es. type e = CHECKPOINT \<longrightarrow> step e \<le> n))"

definition agrees_after :: "EventType \<Rightarrow> int \<Rightarrow> Aggregate \<Rightarrow> Aggregate \<Rightarrow> bool" where
  "agrees_after ty n a b =
     ((ty = DONE \<or> agg_status a = agg_status b)
      \<and> max (agg_currentStep a) n = max (agg_currentStep b) n
      \<and> (ty = CHECKPOINT
           \<or> (agg_lastCheckpointAt a = agg_lastCheckpointAt b
               \<and> agg_latestSummary a = agg_latestSummary b)))"

section \<open>Replay (the board component, startReplay / replay tick / restartReplay)\<close>

datatype ViewMode = live | replay

record Board =
  board_events :: "MissionEvent list"
  mode :: ViewMode
  replayEvents :: "MissionEvent list"
  visibleEvents :: "MissionEvent list"
  replayIndex :: nat
  replayFinished :: bool
  replayFromCheckpoint :: bool

fun findIndex :: "('a \<Rightarrow> bool) \<Rightarrow> 'a list \<Rightarrow> int" where
  "findIndex P [] = - 1"
| "findIndex P (x # xs) =
     (if P x then 0 else (let i = findIndex P xs in if i < 0 then - 1 else i + 1))"

definition lastCheckpointIdx :: "MissionEvent list \<Rightarrow> nat" where
  "lastCheckpointIdx es =
     (case filter (\<lambda>(e, i). type e = CHECKPOINT) (zip es [0 ..< length es]) of
        [] \<Rightarrow> 0
      | x # xs \<Rightarrow> snd (last (x # xs)))"

definition startIndex :: "bool \<Rightarrow> MissionEvent list \<Rightarrow> nat" where
  "startIndex fromCheckpoint eventsToReplay =
     (if fromCheckpoint
      then (if findIndex (\<lambda>e. type e = CHECKPOINT) eventsToReplay \<ge> 0
            then lastCheckpointIdx eventsToReplay else 0)
      else 0)"

definition startReplay :: "bool \<Rightarrow> Board \<Rightarrow> Board" where
  "startReplay fromCheckpoint b =
     (if board_events b = [] then b
      else
        (let eventsToReplay = board_events b;
             i = startIndex fromCheckpoint eventsToReplay
         in b\<lparr>replayEvents := eventsToReplay,
              replayIndex := i,
              visibleEvents := take i eventsToReplay,
              replayFinished := False,
              replayFromCheckpoint := fromCheckpoint,
              mode := replay\<rparr>))"

text \<open>One firing of the replay interval; the effect is installed only in replay mode
  and while the replay has not finished.\<close>

definition replayTick :: "Board \<Rightarrow> Board" where
  "replayTick b =
     (if mode b \<noteq> replay \<or> replayFinished b then b
      else
        (let nextIndex = replayIndex b + 1
         in if nextIndex > length (replayEvents b) then b\<lparr>replayFinished := True\<rparr>
            else b\<lparr>visibleEvents := take nextIndex (replayEvents b),
                   replayIndex := nextIndex\<rparr>))"

definition restartReplay :: "Board \<Rightarrow> Board" where
  "restartReplay b = startReplay (replayFromCheckpoint b) b"

section \<open>Example stores and requests\<close>

text \<open>
  An empty database, the database after one \<open>startMission\<close> (mission 0, seed event 1),
  and a helper that builds an emit request for a well-formed mission id.
\<close>

definition db0 :: Db where
  "db0 = \<lparr>missions = Map.empty, events = [], oid_counter = 0\<rparr>"

definition db1 :: Db where
  "db1 = snd (startMission 1000 \<lparr>start_title = None, start_runMode = None\<rparr> db0)"

definition mkBody :: "ObjectId \<Rightarrow> int \<Rightarrow> string \<Rightarrow> string \<Rightarrow> string \<Rightarrow> EmitEventBody" where
  "mkBody mid n ag ty sm =
     \<lparr>body_missionId = IdOk mid, body_step = n, body_agent = ag, body_type = ty,
      body_summary = sm, body_payload = None\<rparr>"

definition bodyA :: EmitEventBody where
  "bodyA = mkBody 0 2 ''Planner'' ''ASSIGN'' ''summaryA''"

definition bodyB :: EmitEventBody where
  "bodyB = mkBody 0 2 ''Critic'' ''NOTE'' ''summaryB''"

definition body_zero :: EmitEventBody where
  "body_zero = mkBody 0 0 ''Critic'' ''NOTE'' ''a note at step zero''"

definition body_negative :: EmitEventBody where
  "body_negative = mkBody 0 (- 1) ''Critic'' ''NOTE'' ''a note at step minus one''"

text \<open>
  Mission 0 after three ticks without a generator (current step 4), mission 0 closed
  early by a DONE event at step 2, and a request for a step beyond the schedule.
\<close>

definition db4 :: Db where
  "db4 = ticks [(2000, None), (3000, None), (4000, None)] 0 db1"

definition db_done :: Db where
  "db_done = snd (emitEvent 2000 (mkBody 0 2 ''Planner'' ''DONE'' ''finished early'') db1)"

definition body_late :: EmitEventBody where
  "body_late = mkBody 0 25 ''Critic'' ''NOTE'' ''a note after the end''"

text \<open>
  A note emitted at the schedule's last step; two checkpoints emitted out of step order
  (step 3 first, step 2 afterwards); a board holding a three-event snapshot with its
  checkpoint at index 1.
\<close>

definition body17 :: EmitEventBody where
  "body17 = mkBody 0 17 ''Critic'' ''NOTE'' ''a note at the last step''"

definition db17 :: Db where
  "db17 = snd (emitEvent 2000 body17 db1)"

definition bodyCP3 :: EmitEventBody where
  "bodyCP3 = mkBody 0 3 ''Planner'' ''CHECKPOINT'' ''checkpoint B''"

definition bodyCP2 :: EmitEventBody where
  "bodyCP2 = mkBody 0 2 ''Planner'' ''CHECKPOINT'' ''checkpoint A''"

definition db_late :: Db where
  "db_late = snd (emitEvent 3000 bodyCP2 (snd (emitEvent 2000 bodyCP3 db1)))"

definition board1 :: Board where
  "board1 =
     \<lparr>board_events =
        [seedEvent 1 0 1000,
         tick_eventDoc 2 0 2000 2 Planner CHECKPOINT ''first checkpoint'' [] src_fallback,
         tick_eventDoc 3 0 3000 3 Critic NOTE ''a note'' [] src_fallback],
      mode = live, replayEvents = [], visibleEvents = [], replayIndex = 0,
      replayFinished = False, replayFromCheckpoint = False\<rparr>"

text \<open>
  Mission 0 with a checkpoint emitted at step 2; a mission document whose seed event was
  never written; a fork request far beyond the history and one before the checkpoint.
\<close>

definition db_cp :: Db where
  "db_cp = snd (emitEvent 2000 bodyCP2 db1)"


definition fork_far :: ForkBody where
  "fork_far = \<lparr>parentMissionId = IdOk 0, forkStep = 20\<rparr>"




definition fork_early :: ForkBody where
  "fork_early = \<lparr>parentMissionId = IdOk 0, forkStep = 1\<rparr>"

text \<open>
  Notes for steps 3 and 5; mission 0 after the note at step 5; mission 0 after only the
  first write of an emit (the process died before the second), for an ASSIGN and for a
  checkpoint at step 2, and the latter after a following complete emit of the note at
  step 3; mission 0 after four ticks, and after a fifth tick, at the checkpoint step 6,
  for which the generator supplied an artifact of its own; two emits whose handlers ran
  interleaved, both inserts before both updates.
\<close>

definition bodyN3 :: EmitEventBody where
  "bodyN3 = mkBody 0 3 ''Critic'' ''NOTE'' ''note at step 3''"

definition bodyN5 :: EmitEventBody where
  "bodyN5 = mkBody 0 5 ''Critic'' ''NOTE'' ''note at step 5''"

definition db_n5 :: Db where
  "db_n5 = snd (emitEvent 2000 bodyN5 db1)"

definition db_half :: Db where
  "db_half = snd (emit_insert 2000 bodyA db1)"

definition db_crash :: Db where
  "db_crash = snd (emit_insert 2000 bodyCP2 db1)"

definition db_crash_next :: Db where
  "db_crash_next = snd (emitEvent 3000 bodyN3 db_crash)"

definition db5 :: Db where
  "db5 = ticks [(2000, None), (3000, None), (4000, None), (5000, None)] 0 db1"

definition llm_over :: "LLMGeneratedEvent option" where
  "llm_over =
     Some \<lparr>llm_summary = ''generated summary'', llm_payload = [],
           llm_artifactUpdate = Some ''generated artifact''\<rparr>"

definition db_over :: Db where
  "db_over = snd (tick 6000 llm_over (IdOk 0) db5)"

definition db_race :: Db where
  "db_race =
     (case emit_insert 2000 bodyN5 db1 of
        (Inr (ra, mida, ua), s1) \<Rightarrow>
          (case emit_insert 2100 bodyN3 s1 of
             (Inr (rb, midb, ub), s2) \<Rightarrow> updateOne midb ub (updateOne mida ua s2)
           | (Inl e, s2) \<Rightarrow> s2)
      | (Inl e, s1) \<Rightarrow> s1)"

section \<open>Basic facts about the store and the emit handler\<close>

lemmas run_defs = db0_def db1_def startMission_def new_ObjectId_def insertMission_def
  insertOne_def findEvent_def newMissionDoc_def seedEvent_def emitEvent_def emit_insert_def
  emit_validate_def validAgents_def validTypes_def emit_eventDoc_def emit_updateFields_def
  updateOne_def apply_set_def mkBody_def Let_def

lemma db1_events: "events db1 = [seedEvent 1 0 1000]"
  by (simp add: run_defs)

lemma db1_mission:
  "missions db1 0 = Some (newMissionDoc 0 ''AI Trends Research Mission'' rm_scripted 1000)"
  by (simp add: run_defs)

lemma db1_counter: "oid_counter db1 = 2"
  by (simp add: run_defs)

lemma find_snoc:
  "find P (xs @ [x]) =
     (case find P xs of None \<Rightarrow> (if P x then Some x else None) | Some y \<Rightarrow> Some y)"
  by (induction xs) auto

lemma find_None_filter: "find P xs = None \<Longrightarrow> filter P xs = []"
  by (induction xs) (auto split: if_splits)

lemma emit_accept:
  assumes v: "emit_validate b = Inr (mid, ag, ty)" and m: "missions s mid = Some m"
    and f: "findEvent mid (body_step b) s = None"
  shows "emitEvent now b s =
     (Inr Accepted,
      \<lparr>missions = (missions s)(mid \<mapsto> apply_set (emit_updateFields m now ty b) m),
       events = events s @ [emit_eventDoc (oid_counter s) mid now ag ty b],
       oid_counter = Suc (oid_counter s)\<rparr>)"
  using v m f
  by (simp add: emitEvent_def emit_insert_def new_ObjectId_def insertOne_def findEvent_def
      emit_eventDoc_def updateOne_def)

lemma emit_dup:
  assumes v: "emit_validate b = Inr (mid, ag, ty)" and m: "missions s mid = Some m"
    and f: "findEvent mid (body_step b) s = Some x"
  shows "emitEvent now b s = (Inr Duplicate, s\<lparr>oid_counter := Suc (oid_counter s)\<rparr>)"
  using v m f
  by (simp add: emitEvent_def emit_insert_def new_ObjectId_def insertOne_def findEvent_def
      emit_eventDoc_def updateOne_def)

section \<open>Duplicate steps (claim C3)\<close>

text \<open>
  Claim C3. Two emit calls for the same mission and the same step, the step being free
  before the first: the first is accepted, the second is answered with the idempotent
  success \<open>Duplicate\<close> and not with an error, the second call changes neither the event
  log nor any mission document, and the store holds exactly one event at that step,
  the one built from the first request.
\<close>

theorem emit_same_step_twice:
  assumes v1: "emit_validate b1 = Inr (mid, ag1, ty1)"
    and v2: "emit_validate b2 = Inr (mid, ag2, ty2)"
    and same: "body_step b2 = body_step b1"
    and m: "missions s mid = Some m"
    and free: "findEvent mid (body_step b1) s = None"
    and e1: "emitEvent t1 b1 s = (r1, s1)"
    and e2: "emitEvent t2 b2 s1 = (r2, s2)"
  shows "r1 = Inr Accepted \<and> r2 = Inr Duplicate
       \<and> events s2 = events s1 \<and> missions s2 = missions s1
       \<and> filter (\<lambda>e. missionId e = mid \<and> step e = body_step b1) (events s2)
           = [emit_eventDoc (oid_counter s) mid t1 ag1 ty1 b1]"
proof -
  let ?doc = "emit_eventDoc (oid_counter s) mid t1 ag1 ty1 b1"
  from emit_accept[OF v1 m free, of t1] e1
  have r1: "r1 = Inr Accepted"
    and ev1: "events s1 = events s @ [?doc]"
    and ms1: "missions s1 mid = Some (apply_set (emit_updateFields m t1 ty1 b1) m)"
    by auto
  have key: "missionId ?doc = mid \<and> step ?doc = body_step b1"
    by (simp add: emit_eventDoc_def)
  have found: "findEvent mid (body_step b2) s1 = Some ?doc"
    using free key by (simp add: findEvent_def ev1 find_snoc same)
  from emit_dup[OF v2 ms1 found, of t2] e2
  have r2: "r2 = Inr Duplicate" and s2: "s2 = s1\<lparr>oid_counter := Suc (oid_counter s1)\<rparr>"
    by auto
  have "filter (\<lambda>e. missionId e = mid \<and> step e = body_step b1) (events s) = []"
    using free by (simp add: findEvent_def find_None_filter)
  then have "filter (\<lambda>e. missionId e = mid \<and> step e = body_step b1) (events s1) = [?doc]"
    using key by (simp add: ev1)
  then show ?thesis using r1 r2 s2 by simp
qed

theorem emit_same_step_twice_witness:
  "fst (emitEvent 2000 bodyA db1) = Inr Accepted
   \<and> fst (emitEvent 3000 bodyB (snd (emitEvent 2000 bodyA db1))) = Inr Duplicate
   \<and> map summary (filter (\<lambda>e. missionId e = 0 \<and> step e = 2)
        (events (snd (emitEvent 3000 bodyB (snd (emitEvent 2000 bodyA db1)))))) = [''summaryA'']
   \<and> body_summary bodyB \<noteq> body_summary bodyA"
proof -
  have v1: "emit_validate bodyA = Inr (0, Planner, ASSIGN)"
    by (simp add: bodyA_def mkBody_def emit_validate_def validAgents_def validTypes_def)
  have v2: "emit_validate bodyB = Inr (0, Critic, NOTE)"
    by (simp add: bodyB_def mkBody_def emit_validate_def validAgents_def validTypes_def)
  have same: "body_step bodyB = body_step bodyA"
    by (simp add: bodyA_def bodyB_def mkBody_def)
  have free: "findEvent 0 (body_step bodyA) db1 = None"
    by (simp add: findEvent_def db1_events seedEvent_def bodyA_def mkBody_def)
  obtain r1 s1 where e1: "emitEvent 2000 bodyA db1 = (r1, s1)"
    by (cases "emitEvent 2000 bodyA db1")
  obtain r2 s2 where e2: "emitEvent 3000 bodyB s1 = (r2, s2)"
    by (cases "emitEvent 3000 bodyB s1")
  note main = emit_same_step_twice[OF v1 v2 same db1_mission free e1 e2]
  from main have r: "r1 = Inr Accepted" "r2 = Inr Duplicate" by simp_all
  from main have "filter (\<lambda>e. missionId e = 0 \<and> step e = body_step bodyA) (events s2)
      = [emit_eventDoc (oid_counter db1) 0 2000 Planner ASSIGN bodyA]" by blast
  then have "map summary (filter (\<lambda>e. missionId e = 0 \<and> step e = 2) (events s2))
      = [''summaryA'']"
    by (simp add: emit_eventDoc_def bodyA_def mkBody_def)
  then show ?thesis using r e1 e2 by (simp add: bodyA_def bodyB_def mkBody_def)
qed

section \<open>Validation of the step (claim C9)\<close>

text \<open>
  Claim C9, as the handler has it. The only test the emit handler makes on the step is
  the presence test \<open>!body.step\<close>, which a step of 0 fails. Such a call is answered with
  the 400 reply for missing fields before the store is touched: neither the handler as
  a whole nor its first phase changes the store.
\<close>

theorem emit_zero_step_rejected:
  assumes "body_step body = 0"
  shows "emitEvent now body s = (Inl MissingRequiredFields, s)
       \<and> emit_insert now body s = (Inl MissingRequiredFields, s)
       \<and> http_status MissingRequiredFields = 400"
  using assms by (simp add: emitEvent_def emit_insert_def emit_validate_def)

theorem emit_zero_step_rejected_witness:
  "body_step body_zero = 0
   \<and> emitEvent 2000 body_zero db1 = (Inl MissingRequiredFields, db1)"
proof -
  have z: "body_step body_zero = 0" by (simp add: body_zero_def mkBody_def)
  from emit_zero_step_rejected[OF z, of 2000 db1] z show ?thesis by simp
qed

text \<open>
  A negative step passes the presence test. On the freshly started mission 0 the call
  with step \<open>- 1\<close> is accepted, and the event is stored behind the seed event.
\<close>

theorem emit_negative_step_accepted:
  "body_step body_negative < 0
   \<and> fst (emitEvent 2000 body_negative db1) = Inr Accepted
   \<and> map step (events (snd (emitEvent 2000 body_negative db1))) = [1, - 1]"
  by (simp add: run_defs body_negative_def)

section \<open>The schedule and one tick\<close>

lemma getTotalSteps_17: "getTotalSteps = 17"
  by (simp add: getTotalSteps_def stepSchedule_def)

lemma schedule_table:
  "\<forall>k\<in>set [1..17].
     \<exists>ag ty. getAgentAndTypeForStep k = Some (ag, ty) \<and> (ty = DONE \<longleftrightarrow> k = 17)
       \<and> (isFinalStep k \<longleftrightarrow> k = 17)"
  by (simp add: upto_rec1 getAgentAndTypeForStep_def getScheduleForStep_def isFinalStep_def
      stepSchedule_def)

lemma schedule_defined:
  assumes "1 \<le> n" "n \<le> 17"
  shows "\<exists>ag ty. getAgentAndTypeForStep n = Some (ag, ty) \<and> (ty = DONE \<longleftrightarrow> n = 17)
           \<and> (isFinalStep n \<longleftrightarrow> n = 17)"
proof -
  have "n \<in> set [1..17]" using assms by simp
  then show ?thesis using schedule_table by blast
qed

lemma tick_advance:
  assumes m: "missions s mid = Some m" and r: "status m = st_running"
    and lo: "0 \<le> currentStep m" and hi: "currentStep m < 17"
    and free: "findEvent mid (currentStep m + 1) s = None"
    and sch: "getAgentAndTypeForStep (currentStep m + 1) = Some (ag, ty)"
    and con: "tick_content llm (currentStep m + 1) ag ty = (sm, pl, art, used)"
  shows "tick now llm (IdOk mid) s =
     (Inr (TickStep (currentStep m + 1) used
            (Some (tick_eventDoc (oid_counter s) mid now (currentStep m + 1) ag ty sm pl used))),
      \<lparr>missions = (missions s)(mid \<mapsto>
          apply_set (tick_updateFields now (currentStep m + 1) ty sm art) m),
       events = events s @
          [tick_eventDoc (oid_counter s) mid now (currentStep m + 1) ag ty sm pl used],
       oid_counter = Suc (oid_counter s)\<rparr>)"
  using m r hi free sch con
  by (simp add: tick_def tick_insert_def getTotalSteps_17 new_ObjectId_def insertOne_def
      findEvent_def tick_eventDoc_def updateOne_def Let_def)


lemma find_None_if_all_below:
  assumes "\<forall>n\<in>set (own_steps s mid). n \<le> c"
  shows "findEvent mid (c + 1) s = None"
  using assms by (auto simp: findEvent_def find_None_iff own_steps_def)

lemma tick_one:
  assumes m: "missions s mid = Some m" and r: "status m = st_running"
    and lo: "1 \<le> currentStep m" and hi: "currentStep m < 17"
    and below: "\<forall>n\<in>set (own_steps s mid). n \<le> currentStep m"
  shows "\<exists>m'. missions (snd (tick now llm (IdOk mid) s)) mid = Some m'
           \<and> currentStep m' = currentStep m + 1
           \<and> status m' = (if currentStep m + 1 = 17 then st_done else st_running)
           \<and> own_steps (snd (tick now llm (IdOk mid) s)) mid
                = own_steps s mid @ [currentStep m + 1]"
proof -
  from schedule_defined[of "currentStep m + 1"] lo hi
  obtain ag ty where sch: "getAgentAndTypeForStep (currentStep m + 1) = Some (ag, ty)"
    and d: "ty = DONE \<longleftrightarrow> currentStep m + 1 = 17"
    and f: "isFinalStep (currentStep m + 1) \<longleftrightarrow> currentStep m + 1 = 17"
    by auto
  obtain sm pl art used where con: "tick_content llm (currentStep m + 1) ag ty = (sm, pl, art, used)"
    by (cases "tick_content llm (currentStep m + 1) ag ty") auto
  have lo0: "0 \<le> currentStep m" using lo by simp
  note t = tick_advance[OF m r lo0 hi find_None_if_all_below[OF below] sch con, of now]
  show ?thesis
    using d f r
    by (simp add: t apply_set_def tick_updateFields_def own_steps_def tick_eventDoc_def)
qed

lemma ticks_advance:
  assumes "missions s mid = Some m" and "status m = st_running"
    and "1 \<le> currentStep m" and "currentStep m + int (length ins) \<le> 17"
    and "\<forall>n\<in>set (own_steps s mid). n \<le> currentStep m"
  shows "\<exists>m'. missions (ticks ins mid s) mid = Some m'
           \<and> currentStep m' = currentStep m + int (length ins)
           \<and> status m' = (if currentStep m + int (length ins) = 17 \<and> ins \<noteq> [] then st_done else st_running)
           \<and> own_steps (ticks ins mid s) mid
                = own_steps s mid @ [currentStep m + 1 .. currentStep m + int (length ins)]"
  using assms
proof (induction ins arbitrary: s m)
  case Nil
  then show ?case by simp
next
  case (Cons a ins)
  obtain now llm where a: "a = (now, llm)" by (cases a)
  let ?s1 = "snd (tick now llm (IdOk mid) s)"
  have hi: "currentStep m < 17" using Cons.prems(4) by simp
  from tick_one[OF Cons.prems(1,2,3) hi Cons.prems(5), of now llm]
  obtain m1 where m1: "missions ?s1 mid = Some m1"
    and c1: "currentStep m1 = currentStep m + 1"
    and st1: "status m1 = (if currentStep m + 1 = 17 then st_done else st_running)"
    and os1: "own_steps ?s1 mid = own_steps s mid @ [currentStep m + 1]"
    by blast
  show ?case
  proof (cases "ins = []")
    case True
    then show ?thesis using m1 c1 st1 os1 a by simp
  next
    case False
    then have pos: "1 \<le> int (length ins)" by (cases ins) simp_all
    have p4: "currentStep m + 1 + int (length ins) \<le> 17" using Cons.prems(4) by simp
    have lt: "currentStep m + 1 < 17" using pos p4 by linarith
    have r1: "status m1 = st_running" using st1 lt by simp
    have lo1: "1 \<le> currentStep m1" using c1 Cons.prems(3) by simp
    have hi1: "currentStep m1 + int (length ins) \<le> 17" using c1 Cons.prems(4) by simp
    have below1: "\<forall>n\<in>set (own_steps ?s1 mid). n \<le> currentStep m1"
      using os1 c1 Cons.prems(5) by auto
    from Cons.IH[OF m1 r1 lo1 hi1 below1]
    obtain m' where m': "missions (ticks ins mid ?s1) mid = Some m'"
      and c': "currentStep m' = currentStep m1 + int (length ins)"
      and st': "status m' = (if currentStep m1 + int (length ins) = 17 \<and> ins \<noteq> [] then st_done else st_running)"
      and os': "own_steps (ticks ins mid ?s1) mid
                = own_steps ?s1 mid @ [currentStep m1 + 1 .. currentStep m1 + int (length ins)]"
      by blast
    have up: "[currentStep m + 1 .. currentStep m + 1 + int (length ins)]
        = (currentStep m + 1) # [currentStep m + 1 + 1 .. currentStep m + 1 + int (length ins)]"
      by (rule upto_rec1) simp
    show ?thesis
      using m' c' st' os' c1 os1 a False up by (simp add: add.assoc ac_simps)
  qed
qed

lemma tick_when_done:
  assumes "missions s mid = Some m" and "status m \<noteq> st_running"
  shows "tick now llm (IdOk mid) s = (Inr (TickStatus (status m)), s)"
  using assms by (simp add: tick_def tick_insert_def)


lemma ticks_append: "ticks (xs @ ys) mid s = ticks ys mid (ticks xs mid s)"
  by (induction xs arbitrary: s) auto

lemma ticks_when_done:
  assumes "missions s mid = Some m" and "status m \<noteq> st_running"
  shows "ticks further mid s = s"
  using assms by (induction further) (auto simp: tick_when_done)

section \<open>Sixteen ticks (claim C4)\<close>

text \<open>
  Claim C4. A mission that is running at step 1 with only its seed event: after \<open>k\<close>
  tick calls, \<open>k \<le> 16\<close>, whatever the generator answers, the mission is at step
  \<open>1 + k\<close> and its events are those of steps 1 to \<open>1 + k\<close>, one appended per call;
  its status is running for \<open>k < 16\<close> and done for \<open>k = 16\<close>. After the sixteenth call
  every further tick, however many came before it, replies with status done and leaves
  the store as the sixteenth call left it.
\<close>

theorem tick_reaches_done_after_16:
  assumes m: "missions s mid = Some m" and r: "status m = st_running"
    and c: "currentStep m = 1" and seeded: "own_steps s mid = [1]"
  shows "(length ins \<le> 16 \<longrightarrow>
           (\<exists>m'. missions (ticks ins mid s) mid = Some m'
              \<and> currentStep m' = 1 + int (length ins)
              \<and> status m' = (if length ins = 16 then st_done else st_running)
              \<and> own_steps (ticks ins mid s) mid = [1 .. 1 + int (length ins)]))
       \<and> (length ins = 16 \<longrightarrow>
           tick now llm (IdOk mid) (ticks (ins @ further) mid s)
             = (Inr (TickStatus st_done), ticks ins mid s))"
proof (intro conjI impI)
  assume len: "length ins \<le> 16"
  have lo: "1 \<le> currentStep m" using c by simp
  have hi: "currentStep m + int (length ins) \<le> 17" using c len by simp
  have below: "\<forall>n\<in>set (own_steps s mid). n \<le> currentStep m" using c seeded by simp
  from ticks_advance[OF m r lo hi below]
  obtain m' where m': "missions (ticks ins mid s) mid = Some m'"
    and c': "currentStep m' = currentStep m + int (length ins)"
    and st': "status m' = (if currentStep m + int (length ins) = 17 \<and> ins \<noteq> [] then st_done else st_running)"
    and os': "own_steps (ticks ins mid s) mid
                = own_steps s mid @ [currentStep m + 1 .. currentStep m + int (length ins)]"
    by blast
  have up: "[1 .. 1 + int (length ins)] = 1 # [1 + 1 .. 1 + int (length ins)]"
    by (rule upto_rec1) simp
  have st: "status m' = (if length ins = 16 then st_done else st_running)"
    using st' c by auto
  show "\<exists>m'. missions (ticks ins mid s) mid = Some m'
              \<and> currentStep m' = 1 + int (length ins)
              \<and> status m' = (if length ins = 16 then st_done else st_running)
              \<and> own_steps (ticks ins mid s) mid = [1 .. 1 + int (length ins)]"
    using m' c' st os' c seeded up by simp
next
  assume len: "length ins = 16"
  have lo: "1 \<le> currentStep m" using c by simp
  have hi: "currentStep m + int (length ins) \<le> 17" using c len by simp
  have below: "\<forall>n\<in>set (own_steps s mid). n \<le> currentStep m" using c seeded by simp
  from ticks_advance[OF m r lo hi below]
  obtain m' where m': "missions (ticks ins mid s) mid = Some m'"
    and st': "status m' = (if currentStep m + int (length ins) = 17 \<and> ins \<noteq> [] then st_done else st_running)"
    by blast
  have d: "status m' = st_done" using st' c len by auto
  then have nr: "status m' \<noteq> st_running" by simp
  have "ticks (ins @ further) mid s = ticks ins mid s"
    by (simp add: ticks_append ticks_when_done[OF m' nr])
  then show "tick now llm (IdOk mid) (ticks (ins @ further) mid s)
             = (Inr (TickStatus st_done), ticks ins mid s)"
    using tick_when_done[OF m' nr, of now llm] d by simp
qed

lemma db1_own_steps: "own_steps db1 0 = [1]"
  by (simp add: own_steps_def db1_events seedEvent_def)

lemma db1_mission_fields:
  "status (newMissionDoc 0 ''AI Trends Research Mission'' rm_scripted 1000) = st_running"
  "currentStep (newMissionDoc 0 ''AI Trends Research Mission'' rm_scripted 1000) = 1"
  by (simp_all add: newMissionDoc_def)

theorem tick_reaches_done_after_16_witness:
  "own_steps db1 0 = [1]
   \<and> map_option status (missions (ticks (replicate 16 (2000, None)) 0 db1) 0) = Some st_done
   \<and> map_option currentStep (missions (ticks (replicate 16 (2000, None)) 0 db1) 0) = Some 17
   \<and> map_option status (missions (ticks (replicate 15 (2000, None)) 0 db1) 0) = Some st_running
   \<and> tick 9000 None (IdOk 0) (ticks (replicate 16 (2000, None)) 0 db1)
        = (Inr (TickStatus st_done), ticks (replicate 16 (2000, None)) 0 db1)"
proof -
  note main = tick_reaches_done_after_16[OF db1_mission db1_mission_fields db1_own_steps]
  from main[of "replicate 16 (2000, None)" 9000 None "[]"]
  have a: "map_option status (missions (ticks (replicate 16 (2000, None)) 0 db1) 0) = Some st_done"
    and b: "map_option currentStep (missions (ticks (replicate 16 (2000, None)) 0 db1) 0) = Some 17"
    and c: "tick 9000 None (IdOk 0) (ticks (replicate 16 (2000, None)) 0 db1)
        = (Inr (TickStatus st_done), ticks (replicate 16 (2000, None)) 0 db1)"
    by auto
  from main[of "replicate 15 (2000, None)" 9000 None "[]"]
  have d: "map_option status (missions (ticks (replicate 15 (2000, None)) 0 db1) 0) = Some st_running"
    by auto
  show ?thesis using a b c d db1_own_steps by simp
qed

section \<open>Agent and kind come from the schedule (claim C7)\<close>

text \<open>
  Claim C7. Whenever a tick call appends an event, it appends exactly one, and the
  event's agent and kind are the schedule's entry for the event's step, whether the
  text came from the generator or from the fallback table (the event's provenance says
  which). The fallback table supplies the summary only: at step 5 its own agent is
  Researcher while the schedule, and the stored event, say Critic.
\<close>

theorem tick_event_follows_schedule:
  assumes t: "tick now llm i s = (r, s')" and grew: "events s' \<noteq> events s"
  shows "\<exists>e. events s' = events s @ [e]
           \<and> getAgentAndTypeForStep (step e) = Some (agent e, type e)
           \<and> source e = Some (case llm of None \<Rightarrow> src_fallback | Some g \<Rightarrow> src_openai)
           \<and> summary e = fst (tick_content llm (step e) (agent e) (type e))"
proof -
  obtain r0 s1 where ti: "tick_insert now llm i s = (r0, s1)" by (cases "tick_insert now llm i s")
  have ev: "events s' = events s1"
    using t ti by (auto simp: tick_def updateOne_def split: sum.splits prod.splits option.splits)
  show ?thesis
    using ti grew unfolding ev
    by (auto simp: tick_insert_def Let_def new_ObjectId_def insertOne_def tick_eventDoc_def
        tick_content_def
        split: IdInput.splits option.splits if_splits prod.splits)
qed


lemmas tick_defs = tick_def tick_insert_def getTotalSteps_def getAgentAndTypeForStep_def
  getScheduleForStep_def isFinalStep_def stepSchedule_def tick_content_def demoScript_def
  tick_eventDoc_def tick_updateFields_def

lemma db4_events:
  "map (\<lambda>e. (event_id e, step e, agent e, type e)) (events db4)
     = [(1, 1, Planner, PLAN), (2, 2, Planner, ASSIGN), (3, 3, Researcher, TOOL_CALL),
        (4, 4, Researcher, TOOL_RESULT)]"
  by (simp add: db4_def run_defs tick_defs)

lemma db4_tick_grows: "events (snd (tick 5000 None (IdOk 0) db4)) \<noteq> events db4"
  by (simp add: db4_def run_defs tick_defs)

lemma db4_tick_summary:
  "map (\<lambda>e. (step e, summary e)) (drop 4 (events (snd (tick 5000 None (IdOk 0) db4))))
    = [(5, ''Key trend identified: State-space models challenging transformers'')]"
  by (simp add: db4_def run_defs tick_defs)

theorem tick_event_follows_schedule_witness:
  "events (snd (tick 5000 None (IdOk 0) db4)) \<noteq> events db4
   \<and> (\<exists>e. events (snd (tick 5000 None (IdOk 0) db4)) = events db4 @ [e]
          \<and> getAgentAndTypeForStep (step e) = Some (agent e, type e)
          \<and> source e = Some src_fallback)
   \<and> map (\<lambda>e. (step e, summary e)) (drop 4 (events (snd (tick 5000 None (IdOk 0) db4))))
        = [(5, ''Key trend identified: State-space models challenging transformers'')]
   \<and> map demo_agent (filter (\<lambda>d. demo_step d = 5) demoScript) = [Researcher]
   \<and> getAgentAndTypeForStep 5 = Some (Critic, NOTE)"
proof -
  obtain r s' where t: "tick 5000 None (IdOk 0) db4 = (r, s')"
    by (cases "tick 5000 None (IdOk 0) db4")
  have grew: "events s' \<noteq> events db4" using db4_tick_grows t by simp
  from tick_event_follows_schedule[OF t grew]
  have "\<exists>e. events s' = events db4 @ [e]
          \<and> getAgentAndTypeForStep (step e) = Some (agent e, type e)
          \<and> source e = Some src_fallback"
    by auto
  moreover have "map demo_agent (filter (\<lambda>d. demo_step d = 5) demoScript) = [Researcher]"
    by (simp add: demoScript_def)
  moreover have "getAgentAndTypeForStep 5 = Some (Critic, NOTE)"
    by (simp add: getAgentAndTypeForStep_def getScheduleForStep_def stepSchedule_def)
  ultimately show ?thesis using t grew db4_tick_summary by simp
qed

section \<open>Facts about the fork handler\<close>

lemma forkedEvents_spec:
  "forkedEvents n es s = (cs, s') \<Longrightarrow>
     s' = s\<lparr>oid_counter := oid_counter s + length es\<rparr> \<and> length cs = length es \<and>
     (\<forall>i<length es. cs ! i = forkedEvent (oid_counter s + i) n (es ! i))"
proof (induction es arbitrary: s cs s')
  case Nil
  then show ?case by simp
next
  case (Cons e es)
  obtain rest s2 where r: "forkedEvents n es (s\<lparr>oid_counter := Suc (oid_counter s)\<rparr>) = (rest, s2)"
    by (cases "forkedEvents n es (s\<lparr>oid_counter := Suc (oid_counter s)\<rparr>)")
  from Cons.prems r have cs: "cs = forkedEvent (oid_counter s) n e # rest" and s': "s' = s2"
    by (simp_all add: new_ObjectId_def)
  from Cons.IH[OF r] have ih: "s2 = s\<lparr>oid_counter := Suc (oid_counter s) + length es\<rparr>"
    "length rest = length es"
    "\<forall>i<length es. rest ! i = forkedEvent (Suc (oid_counter s) + i) n (es ! i)"
    by simp_all
  show ?case
    using cs s' ih by (auto simp: nth_Cons split: nat.splits)
qed

lemma insertMany_missions: "missions (snd (insertMany es s)) = missions s"
  by (induction es arbitrary: s) (auto simp: insertOne_def split: option.splits)

lemma fork_other_missions:
  assumes "mid \<noteq> oid_counter s"
  shows "missions (snd (forkMission now fb s)) mid = missions s mid"
proof (cases "forkMission now fb s")
  case (Pair r s')
  show ?thesis
  proof (cases "\<exists>pid p. parentMissionId fb = IdOk pid \<and> \<not> forkStep fb < 1 \<and> missions s pid = Some p
        \<and> parentEventsUpTo pid (forkStep fb) s \<noteq> []")
    case False
    then have "s' = s" using Pair
      by (auto simp: forkMission_def Let_def split: IdInput.splits option.splits if_splits)
    then show ?thesis using Pair by simp
  next
    case True
    then obtain pid p where h: "parentMissionId fb = IdOk pid" "\<not> forkStep fb < 1"
      "missions s pid = Some p" "parentEventsUpTo pid (forkStep fb) s \<noteq> []" by blast
    define s2 where "s2 = insertMission (forkMissionDoc (oid_counter s) pid p
        (parentEventsUpTo pid (forkStep fb) s) now) (s\<lparr>oid_counter := Suc (oid_counter s)\<rparr>)"
    obtain cs s3 where f: "forkedEvents (oid_counter s) (parentEventsUpTo pid (forkStep fb) s) s2 = (cs, s3)"
      by (cases "forkedEvents (oid_counter s) (parentEventsUpTo pid (forkStep fb) s) s2")
    have s': "s' = snd (insertMany cs s3)"
      using Pair h f
      by (auto simp: forkMission_def Let_def new_ObjectId_def s2_def split: prod.splits bool.splits)
    have "missions s3 = missions s2" using forkedEvents_spec[OF f] by simp
    then have "missions s' = missions s2" by (simp add: s' insertMany_missions)
    then show ?thesis using Pair assms by (simp add: s2_def insertMission_def forkMissionDoc_def Let_def)
  qed
qed

section \<open>Emitting into a finished mission (claim C10)\<close>

lemma emit_status_done:
  assumes "missions s mid = Some m" "status m = st_done"
  shows "map_option status (missions (snd (emitEvent now b s)) mid) = Some st_done"
proof (cases "emit_insert now b s")
  case (Pair r s1)
  show ?thesis
    using assms Pair
    by (cases r)
       (auto simp: emitEvent_def emit_insert_def new_ObjectId_def insertOne_def updateOne_def
          apply_set_def emit_updateFields_def Let_def
          split: sum.splits option.splits prod.splits EmitReply.splits if_splits)
qed

lemma tick_other_missions:
  assumes "i \<noteq> IdOk mid"
  shows "missions (snd (tick now llm i s)) mid = missions s mid"
proof -
  obtain r0 s1 where ti: "tick_insert now llm i s = (r0, s1)" by (cases "tick_insert now llm i s")
  have a: "missions s1 = missions s"
    using ti
    by (auto simp: tick_insert_def Let_def new_ObjectId_def insertOne_def
        split: IdInput.splits option.splits if_splits prod.splits)
  have b: "\<And>reply j u. r0 = Inr (reply, Some (j, u)) \<Longrightarrow> i = IdOk j"
    using ti
    by (auto simp: tick_insert_def Let_def new_ObjectId_def insertOne_def
        split: IdInput.splits option.splits if_splits prod.splits)
  show ?thesis
    using ti a b assms
    by (auto simp: tick_def updateOne_def split: sum.splits prod.splits option.splits)
qed

lemma tick_status_done:
  assumes "missions s mid = Some m" "status m = st_done"
  shows "map_option status (missions (snd (tick now llm i s)) mid) = Some st_done"
proof (cases "i = IdOk mid")
  case True
  then show ?thesis using assms by (simp add: tick_when_done)
next
  case False
  then show ?thesis using assms by (simp add: tick_other_missions)
qed

lemma insertOne_missions: "insertOne e s = Some s' \<Longrightarrow> missions s' = missions s"
  by (auto simp: insertOne_def split: option.splits)

lemma start_other_missions:
  assumes "mid \<noteq> oid_counter s"
  shows "missions (snd (startMission now sb s)) mid = missions s mid"
  using assms
  by (auto simp: startMission_def Let_def new_ObjectId_def insertMission_def newMissionDoc_def
      dest!: insertOne_missions split: option.splits)


text \<open>
  Claim C10. The emit handler never looks at the mission's status. For a mission that
  is done, a valid emit at a step above the current step, with no event stored at that
  step, is accepted: the event is appended and the current step becomes the event's
  step, also beyond step 17, while the status stays done. No handler moves a done
  mission out of done: not emit, not tick, and fork and start only write the document
  of the new mission they create.
\<close>

theorem done_mission_emit_still_appends:
  assumes m: "missions s mid = Some m" and d: "status m = st_done"
  shows "(emit_validate b = Inr (mid, ag, ty) \<and> currentStep m < body_step b
            \<and> findEvent mid (body_step b) s = None \<longrightarrow>
          (\<exists>s' m'. emitEvent now b s = (Inr Accepted, s')
             \<and> events s' = events s @ [emit_eventDoc (oid_counter s) mid now ag ty b]
             \<and> missions s' mid = Some m' \<and> currentStep m' = body_step b
             \<and> status m' = st_done))
       \<and> map_option status (missions (snd (emitEvent now b s)) mid) = Some st_done
       \<and> map_option status (missions (snd (tick now llm i s)) mid) = Some st_done
       \<and> (mid \<noteq> oid_counter s \<longrightarrow>
            map_option status (missions (snd (forkMission now fb s)) mid) = Some st_done
          \<and> map_option status (missions (snd (startMission now sb s)) mid) = Some st_done)"
proof (intro conjI impI)
  assume h: "emit_validate b = Inr (mid, ag, ty) \<and> currentStep m < body_step b
            \<and> findEvent mid (body_step b) s = None"
  then have v: "emit_validate b = Inr (mid, ag, ty)" and gt: "currentStep m < body_step b"
    and free: "findEvent mid (body_step b) s = None" by simp_all
  show "\<exists>s' m'. emitEvent now b s = (Inr Accepted, s')
             \<and> events s' = events s @ [emit_eventDoc (oid_counter s) mid now ag ty b]
             \<and> missions s' mid = Some m' \<and> currentStep m' = body_step b
             \<and> status m' = st_done"
    using gt d by (simp add: emit_accept[OF v m free] apply_set_def emit_updateFields_def)
next
  show "map_option status (missions (snd (emitEvent now b s)) mid) = Some st_done"
    by (rule emit_status_done[OF m d])
next
  show "map_option status (missions (snd (tick now llm i s)) mid) = Some st_done"
    by (rule tick_status_done[OF m d])
next
  assume "mid \<noteq> oid_counter s"
  then show "map_option status (missions (snd (forkMission now fb s)) mid) = Some st_done"
    using m d by (simp add: fork_other_missions)
next
  assume "mid \<noteq> oid_counter s"
  then show "map_option status (missions (snd (startMission now sb s)) mid) = Some st_done"
    using m d by (simp add: start_other_missions)
qed

lemma db_done_mission:
  "missions db_done 0 = Some ((newMissionDoc 0 ''AI Trends Research Mission'' rm_scripted 1000)
      \<lparr>updatedAt := 2000, currentStep := 2, status := st_done\<rparr>)"
  by (simp add: run_defs db_done_def)

lemma db_done_events: "map step (events db_done) = [1, 2]"
  by (simp add: run_defs db_done_def)

theorem done_mission_emit_still_appends_witness:
  "map_option status (missions db_done 0) = Some st_done
   \<and> fst (emitEvent 3000 body_late db_done) = Inr Accepted
   \<and> map_option currentStep (missions (snd (emitEvent 3000 body_late db_done)) 0) = Some 25
   \<and> map_option status (missions (snd (emitEvent 3000 body_late db_done)) 0) = Some st_done"
proof -
  let ?m = "(newMissionDoc 0 ''AI Trends Research Mission'' rm_scripted 1000)
      \<lparr>updatedAt := 2000, currentStep := 2, status := st_done\<rparr>"
  have d: "status ?m = st_done" by simp
  have v: "emit_validate body_late = Inr (0, Critic, NOTE)"
    by (simp add: body_late_def mkBody_def emit_validate_def validAgents_def validTypes_def)
  have gt: "currentStep ?m < body_step body_late" by (simp add: body_late_def mkBody_def)
  have free: "findEvent 0 (body_step body_late) db_done = None"
    using db_done_events
    by (auto simp: findEvent_def find_None_iff body_late_def mkBody_def)
  from done_mission_emit_still_appends[OF db_done_mission d, of body_late Critic NOTE 3000]
    v gt free
  obtain s' m' where "emitEvent 3000 body_late db_done = (Inr Accepted, s')"
    "missions s' 0 = Some m'" "currentStep m' = body_step body_late" "status m' = st_done"
    by blast
  then show ?thesis by (simp add: db_done_mission body_late_def mkBody_def)
qed



section \<open>Replay (claim C8)\<close>

lemma findIndex_nonneg: "findIndex P xs \<ge> - 1"
  by (induction xs) (auto simp: Let_def)

lemma findIndex_found: "findIndex P xs \<ge> 0 \<longleftrightarrow> (\<exists>x\<in>set xs. P x)"
  by (induction xs) (auto simp: Let_def)

lemma lastCheckpointIdx_alt:
  "lastCheckpointIdx es =
     (let xs = filter (\<lambda>(e, i). type e = CHECKPOINT) (zip es [0 ..< length es])
      in if xs = [] then 0 else snd (last xs))"
  by (simp add: lastCheckpointIdx_def Let_def split: list.splits)

lemma lastCheckpointIdx_snoc:
  "lastCheckpointIdx (es @ [x]) = (if type x = CHECKPOINT then length es else lastCheckpointIdx es)"
  by (simp add: lastCheckpointIdx_alt Let_def)

lemma lastCheckpointIdx_is_last:
  "\<exists>e\<in>set es. type e = CHECKPOINT \<Longrightarrow>
     lastCheckpointIdx es < length es \<and> type (es ! lastCheckpointIdx es) = CHECKPOINT
     \<and> (\<forall>j. lastCheckpointIdx es < j \<and> j < length es \<longrightarrow> type (es ! j) \<noteq> CHECKPOINT)"
proof (induction es rule: rev_induct)
  case Nil
  then show ?case by simp
next
  case (snoc x es)
  show ?case
  proof (cases "type x = CHECKPOINT")
    case True
    then show ?thesis by (auto simp: lastCheckpointIdx_snoc)
  next
    case False
    with snoc.prems have "\<exists>e\<in>set es. type e = CHECKPOINT" by auto
    from snoc.IH[OF this] False show ?thesis
      by (auto simp: lastCheckpointIdx_snoc nth_append less_Suc_eq)
  qed
qed

lemma startIndex_zero:
  "\<not> f \<or> \<not> (\<exists>e\<in>set es. type e = CHECKPOINT) \<Longrightarrow> startIndex f es = 0"
  using findIndex_found[of "\<lambda>e. type e = CHECKPOINT" es]
  by (auto simp: startIndex_def)

lemma startIndex_last_checkpoint:
  "f \<Longrightarrow> \<exists>e\<in>set es. type e = CHECKPOINT \<Longrightarrow> startIndex f es = lastCheckpointIdx es"
  using findIndex_found[of "\<lambda>e. type e = CHECKPOINT" es]
  by (auto simp: startIndex_def)

lemma startIndex_le: "startIndex f es \<le> length es"
proof (cases "f \<and> (\<exists>e\<in>set es. type e = CHECKPOINT)")
  case True
  then show ?thesis
    using lastCheckpointIdx_is_last[of es] by (simp add: startIndex_last_checkpoint)
next
  case False
  then show ?thesis using startIndex_zero[of f es] by auto
qed

lemma replayTick_keeps:
  "board_events ((replayTick ^^ k) b) = board_events b
   \<and> replayEvents ((replayTick ^^ k) b) = replayEvents b
   \<and> replayFromCheckpoint ((replayTick ^^ k) b) = replayFromCheckpoint b
   \<and> mode ((replayTick ^^ k) b) = mode b"
  by (induction k) (auto simp: replayTick_def Let_def)

lemma replayTick_prefix:
  assumes "mode b = replay" "\<not> replayFinished b" "visibleEvents b = take (replayIndex b) (replayEvents b)"
    and "replayIndex b + k \<le> length (replayEvents b)"
  shows "(replayTick ^^ k) b =
           b\<lparr>visibleEvents := take (replayIndex b + k) (replayEvents b),
             replayIndex := replayIndex b + k\<rparr>"
  using assms
proof (induction k)
  case 0
  then show ?case by simp
next
  case (Suc k)
  then show ?case by (simp add: replayTick_def)
qed

lemma startReplay_state:
  assumes "board_events b \<noteq> []"
  shows "startReplay f b =
     b\<lparr>replayEvents := board_events b, replayIndex := startIndex f (board_events b),
       visibleEvents := take (startIndex f (board_events b)) (board_events b),
       replayFinished := False, replayFromCheckpoint := f, mode := replay\<rparr>"
  using assms by (simp add: startReplay_def Let_def)


text \<open>
  Claim C8. A replay exists once \<open>startReplay\<close> has captured a non-empty snapshot (on an
  empty one it does nothing). Its start offset is 0 when the from-checkpoint flag is
  unset or the snapshot has no checkpoint, and otherwise the index of the last
  checkpoint in the snapshot. From there each firing of the interval reveals one more
  event: the visible events are always a prefix of the snapshot, in snapshot order,
  growing until all are visible; the next firing sets the finished flag. At any moment
  \<open>restartReplay\<close> puts the revealed count back to the start offset. None of this
  changes the events the board holds, nor the captured snapshot.
\<close>

theorem replay_reveals_snapshot:
  assumes ne: "board_events b \<noteq> []"
  shows "(\<not> f \<or> \<not> (\<exists>e\<in>set (board_events b). type e = CHECKPOINT) \<longrightarrow>
            replayIndex (startReplay f b) = 0)
       \<and> (f \<and> (\<exists>e\<in>set (board_events b). type e = CHECKPOINT) \<longrightarrow>
            replayIndex (startReplay f b) < length (board_events b)
            \<and> type (board_events b ! replayIndex (startReplay f b)) = CHECKPOINT
            \<and> (\<forall>j. replayIndex (startReplay f b) < j \<and> j < length (board_events b) \<longrightarrow>
                   type (board_events b ! j) \<noteq> CHECKPOINT))
       \<and> visibleEvents (startReplay f b)
            = take (replayIndex (startReplay f b)) (board_events b)
       \<and> (\<forall>k. replayIndex (startReplay f b) + k \<le> length (board_events b) \<longrightarrow>
            visibleEvents ((replayTick ^^ k) (startReplay f b))
              = take (replayIndex (startReplay f b) + k) (board_events b)
            \<and> \<not> replayFinished ((replayTick ^^ k) (startReplay f b)))
       \<and> (\<forall>k. replayIndex (startReplay f b) + k = length (board_events b) + 1 \<longrightarrow>
            visibleEvents ((replayTick ^^ k) (startReplay f b)) = board_events b
            \<and> replayFinished ((replayTick ^^ k) (startReplay f b)))
       \<and> (\<forall>k. replayIndex (restartReplay ((replayTick ^^ k) (startReplay f b)))
                = replayIndex (startReplay f b)
            \<and> visibleEvents (restartReplay ((replayTick ^^ k) (startReplay f b)))
                = take (replayIndex (startReplay f b)) (board_events b)
            \<and> \<not> replayFinished (restartReplay ((replayTick ^^ k) (startReplay f b))))
       \<and> (\<forall>k. board_events ((replayTick ^^ k) (startReplay f b)) = board_events b
            \<and> replayEvents ((replayTick ^^ k) (startReplay f b)) = board_events b
            \<and> board_events (restartReplay ((replayTick ^^ k) (startReplay f b)))
                = board_events b)"
proof -
  let ?E = "board_events b"
  let ?b0 = "startReplay f b"
  let ?i0 = "startIndex f ?E"
  note st = startReplay_state[OF ne, of f]
  have idx: "replayIndex ?b0 = ?i0" and vis0: "visibleEvents ?b0 = take ?i0 ?E"
    and rep0: "replayEvents ?b0 = ?E" and ev0: "board_events ?b0 = ?E"
    and mode0: "mode ?b0 = replay" and fin0: "\<not> replayFinished ?b0"
    and flag0: "replayFromCheckpoint ?b0 = f"
    by (simp_all add: st)
  have keep: "\<And>k. board_events ((replayTick ^^ k) ?b0) = ?E
      \<and> replayEvents ((replayTick ^^ k) ?b0) = ?E
      \<and> replayFromCheckpoint ((replayTick ^^ k) ?b0) = f"
    using replayTick_keeps[of _ ?b0] ev0 rep0 flag0 by simp
  have prefix: "\<And>k. ?i0 + k \<le> length ?E \<Longrightarrow>
      (replayTick ^^ k) ?b0 = ?b0\<lparr>visibleEvents := take (?i0 + k) ?E, replayIndex := ?i0 + k\<rparr>"
    using replayTick_prefix[of ?b0] mode0 fin0 vis0 rep0 idx by simp
  have c1: "\<not> f \<or> \<not> (\<exists>e\<in>set ?E. type e = CHECKPOINT) \<longrightarrow> replayIndex ?b0 = 0"
    using startIndex_zero[of f ?E] idx by simp
  have c2: "f \<and> (\<exists>e\<in>set ?E. type e = CHECKPOINT) \<longrightarrow>
            replayIndex ?b0 < length ?E \<and> type (?E ! replayIndex ?b0) = CHECKPOINT
            \<and> (\<forall>j. replayIndex ?b0 < j \<and> j < length ?E \<longrightarrow> type (?E ! j) \<noteq> CHECKPOINT)"
  proof (intro impI)
    assume h: "f \<and> (\<exists>e\<in>set ?E. type e = CHECKPOINT)"
    then have eq: "replayIndex ?b0 = lastCheckpointIdx ?E"
      using startIndex_last_checkpoint[of f ?E] idx by simp
    from h have ex: "\<exists>e\<in>set ?E. type e = CHECKPOINT" by simp
    show "replayIndex ?b0 < length ?E \<and> type (?E ! replayIndex ?b0) = CHECKPOINT
            \<and> (\<forall>j. replayIndex ?b0 < j \<and> j < length ?E \<longrightarrow> type (?E ! j) \<noteq> CHECKPOINT)"
      unfolding eq by (rule lastCheckpointIdx_is_last[OF ex])
  qed
  have c3: "visibleEvents ?b0 = take (replayIndex ?b0) ?E" using vis0 idx by simp
  have c4: "\<forall>k. replayIndex ?b0 + k \<le> length ?E \<longrightarrow>
            visibleEvents ((replayTick ^^ k) ?b0) = take (replayIndex ?b0 + k) ?E
            \<and> \<not> replayFinished ((replayTick ^^ k) ?b0)"
    using prefix fin0 idx by simp
  have c5: "\<forall>k. replayIndex ?b0 + k = length ?E + 1 \<longrightarrow>
            visibleEvents ((replayTick ^^ k) ?b0) = ?E \<and> replayFinished ((replayTick ^^ k) ?b0)"
  proof (intro allI impI)
    fix k assume k: "replayIndex ?b0 + k = length ?E + 1"
    have le: "?i0 \<le> length ?E" by (rule startIndex_le)
    then obtain k' where k': "k = Suc k'" and full: "?i0 + k' = length ?E"
      using k idx by (cases k) auto
    have s: "(replayTick ^^ k') ?b0
        = ?b0\<lparr>visibleEvents := take (?i0 + k') ?E, replayIndex := ?i0 + k'\<rparr>"
      using prefix[of k'] full by simp
    have "(replayTick ^^ k) ?b0 = replayTick ((replayTick ^^ k') ?b0)" by (simp add: k')
    also have "\<dots> = (?b0\<lparr>visibleEvents := take (?i0 + k') ?E, replayIndex := ?i0 + k'\<rparr>)
        \<lparr>replayFinished := True\<rparr>"
      unfolding s using mode0 fin0 rep0 full by (simp add: replayTick_def)
    finally show "visibleEvents ((replayTick ^^ k) ?b0) = ?E \<and> replayFinished ((replayTick ^^ k) ?b0)"
      using full by simp
  qed
  have c6: "\<forall>k. replayIndex (restartReplay ((replayTick ^^ k) ?b0)) = replayIndex ?b0
            \<and> visibleEvents (restartReplay ((replayTick ^^ k) ?b0)) = take (replayIndex ?b0) ?E
            \<and> \<not> replayFinished (restartReplay ((replayTick ^^ k) ?b0))"
    using keep ne idx by (simp add: restartReplay_def startReplay_def Let_def)
  have c7: "\<forall>k. board_events ((replayTick ^^ k) ?b0) = ?E
            \<and> replayEvents ((replayTick ^^ k) ?b0) = ?E
            \<and> board_events (restartReplay ((replayTick ^^ k) ?b0)) = ?E"
    using keep ne by (simp add: restartReplay_def startReplay_def Let_def)
  from c1 c2 c3 c4 c5 c6 c7 show ?thesis by blast
qed


theorem replay_reveals_snapshot_witness:
  "board_events board1 \<noteq> []
   \<and> replayIndex (startReplay True board1) = 1
   \<and> replayIndex (startReplay False board1) = 0
   \<and> visibleEvents ((replayTick ^^ 2) (startReplay True board1)) = board_events board1
   \<and> \<not> replayFinished ((replayTick ^^ 2) (startReplay True board1))
   \<and> replayFinished ((replayTick ^^ 3) (startReplay True board1))
   \<and> replayIndex (restartReplay ((replayTick ^^ 3) (startReplay True board1))) = 1"
proof -
  have ne: "board_events board1 \<noteq> []" by (simp add: board1_def)
  have len: "length (board_events board1) = 3" by (simp add: board1_def)
  have i1: "replayIndex (startReplay True board1) = 1"
    by (simp add: board1_def startReplay_def startIndex_def lastCheckpointIdx_def Let_def
        seedEvent_def tick_eventDoc_def)
  note main = replay_reveals_snapshot[OF ne, of True]
  from main have a: "\<forall>k. replayIndex (startReplay True board1) + k \<le> length (board_events board1) \<longrightarrow>
            visibleEvents ((replayTick ^^ k) (startReplay True board1))
              = take (replayIndex (startReplay True board1) + k) (board_events board1)
            \<and> \<not> replayFinished ((replayTick ^^ k) (startReplay True board1))"
    by blast
  from main have b: "\<forall>k. replayIndex (startReplay True board1) + k = length (board_events board1) + 1 \<longrightarrow>
            visibleEvents ((replayTick ^^ k) (startReplay True board1)) = board_events board1
            \<and> replayFinished ((replayTick ^^ k) (startReplay True board1))"
    by blast
  from main have c: "\<forall>k. replayIndex (restartReplay ((replayTick ^^ k) (startReplay True board1)))
                = replayIndex (startReplay True board1)"
    by blast
  from replay_reveals_snapshot[OF ne, of False]
  have d: "replayIndex (startReplay False board1) = 0" by blast
  from a[rule_format, of 2] i1 len
  have a2: "visibleEvents ((replayTick ^^ 2) (startReplay True board1)) = board_events board1
      \<and> \<not> replayFinished ((replayTick ^^ 2) (startReplay True board1))" by simp
  from b[rule_format, of 3] i1 len
  have b3: "replayFinished ((replayTick ^^ 3) (startReplay True board1))" by simp
  from c[rule_format, of 3] i1
  have c3: "replayIndex (restartReplay ((replayTick ^^ 3) (startReplay True board1))) = 1" by simp
  show ?thesis using ne i1 d a2 b3 c3 by simp
qed

section \<open>The folding rule (claim C2)\<close>

lemma foldl_fold_step_currentStep:
  "agg_currentStep (foldl fold_step a es) = Max (insert (agg_currentStep a) (step ` set es))"
proof (induction es arbitrary: a)
  case Nil
  then show ?case by simp
next
  case (Cons e es)
  have fin: "finite (step ` set es)" by simp
  have "agg_currentStep (fold_step a e) = max (agg_currentStep a) (step e)"
    by (simp add: fold_step_def max_def)
  then have "agg_currentStep (foldl fold_step a (e # es))
      = Max (insert (max (agg_currentStep a) (step e)) (step ` set es))"
    using Cons.IH[of "fold_step a e"] by simp
  also have "\<dots> = Max (insert (agg_currentStep a) (insert (step e) (step ` set es)))"
    using fin by (cases "step ` set es = {}") (simp_all add: max.assoc)
  finally show ?case by simp
qed

lemma foldl_fold_step_status:
  "agg_status (foldl fold_step a es)
     = (if \<exists>e\<in>set es. type e = DONE then st_done else agg_status a)"
  by (induction es arbitrary: a) (auto simp: fold_step_def)

lemma foldl_fold_step_checkpoint:
  "agg_lastCheckpointAt (foldl fold_step a es)
     = (case find (\<lambda>e. type e = CHECKPOINT) (rev es) of
          None \<Rightarrow> agg_lastCheckpointAt a | Some c \<Rightarrow> Some (ts c))
   \<and> agg_latestSummary (foldl fold_step a es)
     = (case find (\<lambda>e. type e = CHECKPOINT) (rev es) of
          None \<Rightarrow> agg_latestSummary a | Some c \<Rightarrow> Some (summary c))"
  by (induction es rule: rev_induct) (auto simp: fold_step_def)

text \<open>
  Claim C2, as the handlers have it. Folding any event sequence that holds an event of
  step 1 or more (every mission's history holds its seed event), in whatever order,
  yields as current step the largest step in the sequence, and yields status done
  exactly when the sequence holds a DONE event. The terminal step alone does not set
  the status: only the tick handler looks at the schedule, and there the event at
  step 17 is the DONE event.
\<close>

theorem fold_events_max_and_done:
  assumes "\<exists>e\<in>set es. 1 \<le> step e"
  shows "agg_currentStep (fold_events es) = Max (step ` set es)
       \<and> (agg_status (fold_events es) = st_done \<longleftrightarrow> (\<exists>e\<in>set es. type e = DONE))"
proof -
  from assms obtain e where e: "e \<in> set es" "1 \<le> step e" by blast
  have fin: "finite (step ` set es)" and ne: "step ` set es \<noteq> {}" using e by auto
  have "1 \<le> Max (step ` set es)"
    using e fin by (meson Max_ge image_eqI order_trans)
  then have "Max (insert 1 (step ` set es)) = Max (step ` set es)"
    using fin ne by (simp add: max_def)
  then show ?thesis
    by (simp add: fold_events_def foldl_fold_step_currentStep foldl_fold_step_status
        initialAggregate_def)
qed


lemma db17_history:
  "history db17 0 = [seedEvent 1 0 1000, emit_eventDoc 2 0 2000 Critic NOTE body17]"
  by (simp add: history_def db17_def body17_def run_defs)

theorem fold_events_max_and_done_witness:
  "(\<exists>e\<in>set (history db17 0). 1 \<le> step e)
   \<and> agg_currentStep (fold_events (history db17 0)) = 17
   \<and> agg_status (fold_events (history db17 0)) \<noteq> st_done"
proof -
  have h: "\<exists>e\<in>set (history db17 0). 1 \<le> step e"
    by (simp add: db17_history seedEvent_def)
  have mx: "Max (step ` set (history db17 0)) = 17"
    by (simp add: db17_history seedEvent_def emit_eventDoc_def body17_def mkBody_def)
  have nd: "\<not> (\<exists>e\<in>set (history db17 0). type e = DONE)"
    by (simp add: db17_history seedEvent_def emit_eventDoc_def body17_def mkBody_def
        validTypes_def)
  from fold_events_max_and_done[OF h] mx nd h show ?thesis by simp
qed

text \<open>
  A NOTE emitted at step 17 into a fresh mission: the history holds an event at the
  terminal step, the mission document and the fold both say running, the rule of the
  specification says done.
\<close>

theorem terminal_step_note_stays_running:
  "map step (history db17 0) = [1, 17] \<and> map type (history db17 0) = [PLAN, NOTE]
   \<and> getTotalSteps = 17
   \<and> agg_status (fold_events (history db17 0)) = st_running
   \<and> map_option status (missions db17 0) = Some st_running
   \<and> agg_status (spec_fold_events (history db17 0)) = st_done"
  by (simp add: db17_history seedEvent_def emit_eventDoc_def body17_def mkBody_def
      getTotalSteps_def stepSchedule_def fold_events_def fold_step_def initialAggregate_def
      spec_fold_events_def spec_fold_step_def)
     (simp add: db17_def body17_def run_defs)

section \<open>The cached aggregate (claim C1)\<close>

lemma insort_key_snoc:
  "f x \<le> f y \<Longrightarrow> insort_key f x (zs @ [y]) = insort_key f x zs @ [y]"
  by (induction zs) auto

lemma sort_key_snoc_max:
  "\<forall>x\<in>set xs. f x \<le> f y \<Longrightarrow> sort_key f (xs @ [y]) = sort_key f xs @ [y]"
  by (induction xs) (auto simp: insort_key_snoc)

lemma set_history: "set (history s mid) = {e \<in> set (events s). missionId e = mid}"
  by (auto simp: history_def)

lemma history_append_own:
  assumes "missionId e = mid" and "\<forall>x\<in>set (history s mid). step x \<le> step e"
  shows "history (s\<lparr>events := events s @ [e]\<rparr>) mid = history s mid @ [e]"
  using assms by (simp add: history_def sort_key_snoc_max)

lemma fold_events_snoc: "fold_events (xs @ [e]) = fold_step (fold_events xs) e"
  by (simp add: fold_events_def)

lemma emit_update_is_fold_step:
  "cached (apply_set (emit_updateFields m now ty b) m)
     = fold_step (cached m) (emit_eventDoc eid mid now ag ty b)"
  by (simp add: cached_def apply_set_def emit_updateFields_def fold_step_def emit_eventDoc_def)

lemma schedule_done_is_final:
  "getAgentAndTypeForStep n = Some (ag, ty) \<Longrightarrow> (ty = DONE \<or> isFinalStep n) = (ty = DONE)"
  by (auto simp: getAgentAndTypeForStep_def isFinalStep_def split: option.splits)

lemma tick_content_no_override:
  assumes "no_override llm" and "tick_content llm n ag ty = (sm, pl, art, used)"
  shows "art = None \<or> art = Some [] \<or> art = Some sm"
  using assms
  by (auto simp: no_override_def tick_content_def split: option.splits)

lemma tick_update_is_fold_step_at:
  assumes "getAgentAndTypeForStep n = Some (ag, ty)" and "currentStep m < n"
    and "ty = CHECKPOINT \<longrightarrow> art = None \<or> art = Some [] \<or> art = Some sm"
  shows "cached (apply_set (tick_updateFields now n ty sm art) m)
     = fold_step (cached m) (tick_eventDoc eid mid now n ag ty sm pl used)"
  using assms(2,3) schedule_done_is_final[OF assms(1)]
  by (auto simp: cached_def apply_set_def tick_updateFields_def fold_step_def tick_eventDoc_def)

lemma tick_insert_cases:
  assumes m: "missions s mid = Some m" and ti: "tick_insert now llm (IdOk mid) s = (r0, s1)"
  shows "(s1 = s \<and> (\<exists>reply. r0 = Inr (reply, None)))
       \<or> (\<exists>ag ty sm pl art used.
             getAgentAndTypeForStep (currentStep m + 1) = Some (ag, ty)
           \<and> tick_content llm (currentStep m + 1) ag ty = (sm, pl, art, used)
           \<and> findEvent mid (currentStep m + 1) s = None
           \<and> s1 = s\<lparr>oid_counter := Suc (oid_counter s),
                    events := events s @
                      [tick_eventDoc (oid_counter s) mid now (currentStep m + 1) ag ty sm pl used]\<rparr>
           \<and> r0 = Inr (TickStep (currentStep m + 1) used
                        (Some (tick_eventDoc (oid_counter s) mid now (currentStep m + 1)
                                 ag ty sm pl used)),
                      Some (mid, tick_updateFields now (currentStep m + 1) ty sm art)))"
  using m ti
  by (auto simp: tick_insert_def Let_def new_ObjectId_def insertOne_def findEvent_def
      tick_eventDoc_def
      split: option.splits if_splits prod.splits)

lemma history_updateOne: "history (updateOne mid u s) mid' = history s mid'"
  by (simp add: history_def updateOne_def split: option.splits)

lemma history_counter: "history (s\<lparr>oid_counter := n\<rparr>) mid = history s mid"
  by (simp add: history_def)

lemma fold_currentStep_ge:
  "e \<in> set es \<Longrightarrow> step e \<le> agg_currentStep (fold_events es)"
  by (simp add: fold_events_def foldl_fold_step_currentStep)

lemma fold_step_eq_iff:
  "fold_step a e = fold_step b e \<longleftrightarrow> agrees_after (type e) (step e) a b"
  by (auto simp: fold_step_def agrees_after_def max_def)

lemma find_rev_filter:
  "find P (rev ys) = (if filter P ys = [] then None else Some (last (filter P ys)))"
  by (induction ys rule: rev_induct) auto

lemma fold_events_checkpoint:
  "agg_lastCheckpointAt (fold_events es)
     = map_option ts (find (\<lambda>e. type e = CHECKPOINT) (rev es))
   \<and> agg_latestSummary (fold_events es)
     = map_option summary (find (\<lambda>e. type e = CHECKPOINT) (rev es))"
  by (simp add: fold_events_def foldl_fold_step_checkpoint initialAggregate_def
      split: option.splits)

lemma history_snoc_set:
  assumes "missionId d = mid" and "events s1 = events s @ [d]"
  shows "set (history s1 mid) = insert d (set (history s mid))"
  using assms by (auto simp: history_def)

lemma checkpoints_of_history_snoc:
  assumes mid: "missionId d = mid" and ev: "events s1 = events s @ [d]"
    and nl: "no_later_checkpoint (type d) (step d) (history s mid)"
  shows "filter (\<lambda>e. type e = CHECKPOINT) (history s1 mid)
     = filter (\<lambda>e. type e = CHECKPOINT) (history s mid)
         @ (if type d = CHECKPOINT then [d] else [])"
proof -
  let ?X = "filter (\<lambda>e. type e = CHECKPOINT) (filter (\<lambda>e. missionId e = mid) (events s))"
  have a: "filter (\<lambda>e. type e = CHECKPOINT) (history s mid) = sort_key step ?X"
    by (simp add: history_def filter_sort)
  show ?thesis
  proof (cases "type d = CHECKPOINT")
    case True
    have le: "\<forall>x\<in>set ?X. step x \<le> step d"
      using nl True by (auto simp: no_later_checkpoint_def history_def)
    have "filter (\<lambda>e. type e = CHECKPOINT) (history s1 mid) = sort_key step (?X @ [d])"
      using mid True by (simp add: history_def filter_sort ev)
    also have "\<dots> = sort_key step ?X @ [d]" by (rule sort_key_snoc_max[OF le])
    finally show ?thesis using True a by simp
  next
    case False
    have "filter (\<lambda>e. type e = CHECKPOINT) (history s1 mid) = sort_key step ?X"
      using mid False by (simp add: history_def filter_sort ev)
    then show ?thesis using False a by simp
  qed
qed

lemma fold_history_snoc:
  assumes mid: "missionId d = mid" and ev: "events s1 = events s @ [d]"
    and nl: "no_later_checkpoint (type d) (step d) (history s mid)"
  shows "fold_events (history s1 mid) = fold_step (fold_events (history s mid)) d"
proof -
  let ?H = "history s mid" and ?H1 = "history s1 mid"
  note st = history_snoc_set[OF mid ev]
  have s: "agg_status (fold_events ?H1) = agg_status (fold_step (fold_events ?H) d)"
    by (simp add: fold_events_def foldl_fold_step_status st fold_step_def)
  define M where "M = Max (insert 1 (step ` set ?H))"
  have fin: "finite (insert 1 (step ` set ?H))" by simp
  have old: "agg_currentStep (fold_events ?H) = M"
    by (simp add: fold_events_def foldl_fold_step_currentStep initialAggregate_def M_def)
  have "agg_currentStep (fold_events ?H1) = Max (insert (step d) (insert 1 (step ` set ?H)))"
    by (simp add: fold_events_def foldl_fold_step_currentStep st initialAggregate_def
        insert_commute)
  also have "\<dots> = max (step d) M"
    unfolding M_def using fin by (subst Max_insert) simp_all
  finally have new: "agg_currentStep (fold_events ?H1) = max (step d) M" .
  have "agg_currentStep (fold_step (fold_events ?H) d) = max (step d) M"
    using old by (simp add: fold_step_def max_def)
  then have c: "agg_currentStep (fold_events ?H1)
      = agg_currentStep (fold_step (fold_events ?H) d)"
    using new by simp
  note cp = checkpoints_of_history_snoc[OF mid ev nl]
  have f: "find (\<lambda>e. type e = CHECKPOINT) (rev ?H1)
      = (if type d = CHECKPOINT then Some d else find (\<lambda>e. type e = CHECKPOINT) (rev ?H))"
    by (simp add: find_rev_filter cp)
  have k: "agg_lastCheckpointAt (fold_events ?H1)
             = agg_lastCheckpointAt (fold_step (fold_events ?H) d)
         \<and> agg_latestSummary (fold_events ?H1)
             = agg_latestSummary (fold_step (fold_events ?H) d)"
    using fold_events_checkpoint[of ?H]
    by (simp add: fold_events_checkpoint[of ?H1] f fold_step_def)
  show ?thesis using s c k by (simp add: Aggregate.equality)
qed


text \<open>A mission is created with its cache equal to the fold of its history.\<close>

lemma start_cache_is_fold:
  assumes "\<forall>e\<in>set (events s). missionId e \<noteq> oid_counter s"
  shows "\<exists>s'. startMission now body s = (Inr (oid_counter s), s')
           \<and> history s' (oid_counter s) = [seedEvent (Suc (oid_counter s)) (oid_counter s) now]
           \<and> cache_of s' (oid_counter s) = Some (fold_events (history s' (oid_counter s)))"
proof -
  have none: "filter (\<lambda>e. missionId e = oid_counter s) (events s) = []"
    using assms by (auto simp: filter_empty_conv)
  have free: "find (\<lambda>e. missionId e = oid_counter s \<and> step e = 1) (events s) = None"
    using assms by (auto simp: find_None_iff)
  show ?thesis
    using none free
    by (simp add: startMission_def Let_def new_ObjectId_def insertMission_def insertOne_def
        findEvent_def seedEvent_def history_def cache_of_def cached_def newMissionDoc_def
        fold_events_def fold_step_def initialAggregate_def)
qed

text \<open>
  Claim C1, as the handlers have it, for handlers that run one after the other. A
  completed append writes into the cache what the folding rule makes of the cache and
  the appended event. Take an accepted emit that is not a checkpoint below a checkpoint
  already stored. After it the cache equals the fold of the full history in step order
  exactly when, before it, cache and fold agreed in every field the event does not
  overwrite; so it does whenever the cache equalled the fold before, as it does when a
  mission is created, also for an event emitted below the current step. Between the two
  writes the cache is what it was; if it equalled the fold and the new step is above
  every stored step, that is the fold of the history without its last event, a prefix.
  The same holds for a tick that appends, when at a checkpoint step the generator
  supplies no artifact of its own; and a tick from a cache that equals the fold leaves
  the cache equal to the fold, and after its first write equal to the fold of a prefix.
\<close>

theorem cache_after_append_is_fold:
  assumes m: "missions s mid = Some m"
  shows "(emit_validate b = Inr (mid, ag, ty) \<and> findEvent mid (body_step b) s = None
            \<and> no_later_checkpoint ty (body_step b) (history s mid) \<longrightarrow>
          (\<exists>u s1. emit_insert now b s = (Inr (Accepted, mid, u), s1)
             \<and> emitEvent now b s = (Inr Accepted, updateOne mid u s1)
             \<and> history (updateOne mid u s1) mid = history s1 mid
             \<and> cache_of s1 mid = cache_of s mid
             \<and> (cache_of (updateOne mid u s1) mid = Some (fold_events (history s1 mid))
                  \<longleftrightarrow> agrees_after ty (body_step b) (cached m) (fold_events (history s mid)))
             \<and> (cached m = fold_events (history s mid) \<longrightarrow>
                  cache_of (updateOne mid u s1) mid = Some (fold_events (history s1 mid)))
             \<and> (cached m = fold_events (history s mid)
                  \<and> (\<forall>e\<in>set (history s mid). step e < body_step b) \<longrightarrow>
                  cache_of s1 mid = Some (fold_events (butlast (history s1 mid))))))
       \<and> (getAgentAndTypeForStep (currentStep m + 1) = Some (ag', ty')
            \<and> events (snd (tick now llm (IdOk mid) s)) \<noteq> events s
            \<and> (ty' = CHECKPOINT \<longrightarrow> no_override llm)
            \<and> no_later_checkpoint ty' (currentStep m + 1) (history s mid) \<longrightarrow>
            (cache_of (snd (tick now llm (IdOk mid) s)) mid
               = Some (fold_events (history (snd (tick now llm (IdOk mid) s)) mid))
             \<longleftrightarrow> agrees_after ty' (currentStep m + 1) (cached m)
                   (fold_events (history s mid))))
       \<and> (cached m = fold_events (history s mid)
            \<and> (\<forall>a. getAgentAndTypeForStep (currentStep m + 1) = Some (a, CHECKPOINT)
                   \<longrightarrow> no_override llm) \<longrightarrow>
            cache_of (snd (tick now llm (IdOk mid) s)) mid
              = Some (fold_events (history (snd (tick now llm (IdOk mid) s)) mid))
          \<and> (\<exists>k. cache_of (snd (tick_insert now llm (IdOk mid) s)) mid
                 = Some (fold_events
                          (take k (history (snd (tick_insert now llm (IdOk mid) s)) mid)))))"
proof (intro conjI impI)
  assume h: "emit_validate b = Inr (mid, ag, ty) \<and> findEvent mid (body_step b) s = None
            \<and> no_later_checkpoint ty (body_step b) (history s mid)"
  then have v: "emit_validate b = Inr (mid, ag, ty)"
    and free: "findEvent mid (body_step b) s = None"
    and nl: "no_later_checkpoint ty (body_step b) (history s mid)" by simp_all
  let ?doc = "emit_eventDoc (oid_counter s) mid now ag ty b"
  let ?u = "emit_updateFields m now ty b"
  let ?s1 = "s\<lparr>oid_counter := Suc (oid_counter s), events := events s @ [?doc]\<rparr>"
  let ?F = "fold_events (history s mid)"
  have ins: "emit_insert now b s = (Inr (Accepted, mid, ?u), ?s1)"
    using v m free
    by (simp add: emit_insert_def new_ObjectId_def insertOne_def findEvent_def emit_eventDoc_def)
  have whole: "emitEvent now b s = (Inr Accepted, updateOne mid ?u ?s1)"
    by (simp add: emitEvent_def ins)
  have key: "missionId ?doc = mid" "step ?doc = body_step b" "type ?doc = ty"
    by (simp_all add: emit_eventDoc_def)
  have ev: "events ?s1 = events s @ [?doc]" by simp
  have nl': "no_later_checkpoint (type ?doc) (step ?doc) (history s mid)"
    using nl key by simp
  have f1: "fold_events (history ?s1 mid) = fold_step ?F ?doc"
    by (rule fold_history_snoc[OF key(1) ev nl'])
  have c1: "cache_of ?s1 mid = cache_of s mid" by (simp add: cache_of_def)
  have c2: "cache_of (updateOne mid ?u ?s1) mid = Some (fold_step (cached m) ?doc)"
    using m by (simp add: cache_of_def updateOne_def emit_update_is_fold_step)
  have e: "agrees_after (type ?doc) (step ?doc) (cached m) ?F
      = agrees_after ty (body_step b) (cached m) ?F"
    by (simp only: key)
  have iff: "cache_of (updateOne mid ?u ?s1) mid = Some (fold_events (history ?s1 mid))
      \<longleftrightarrow> agrees_after ty (body_step b) (cached m) ?F"
    by (simp only: c2 f1 option.inject fold_step_eq_iff e)
  have inv: "cached m = ?F \<longrightarrow>
      cache_of (updateOne mid ?u ?s1) mid = Some (fold_events (history ?s1 mid))"
    by (simp add: c2 f1)
  have pre: "cached m = ?F \<and> (\<forall>e\<in>set (history s mid). step e < body_step b) \<longrightarrow>
      cache_of ?s1 mid = Some (fold_events (butlast (history ?s1 mid)))"
  proof
    assume a: "cached m = ?F \<and> (\<forall>e\<in>set (history s mid). step e < body_step b)"
    then have le: "\<forall>x\<in>set (history s mid). step x \<le> step ?doc" using key by auto
    have "history ?s1 mid = history s mid @ [?doc]"
      using history_append_own[OF key(1) le] by (simp add: history_def)
    then show "cache_of ?s1 mid = Some (fold_events (butlast (history ?s1 mid)))"
      using a m by (simp add: cache_of_def)
  qed
  show "\<exists>u s1. emit_insert now b s = (Inr (Accepted, mid, u), s1)
             \<and> emitEvent now b s = (Inr Accepted, updateOne mid u s1)
             \<and> history (updateOne mid u s1) mid = history s1 mid
             \<and> cache_of s1 mid = cache_of s mid
             \<and> (cache_of (updateOne mid u s1) mid = Some (fold_events (history s1 mid))
                  \<longleftrightarrow> agrees_after ty (body_step b) (cached m) (fold_events (history s mid)))
             \<and> (cached m = fold_events (history s mid) \<longrightarrow>
                  cache_of (updateOne mid u s1) mid = Some (fold_events (history s1 mid)))
             \<and> (cached m = fold_events (history s mid)
                  \<and> (\<forall>e\<in>set (history s mid). step e < body_step b) \<longrightarrow>
                  cache_of s1 mid = Some (fold_events (butlast (history s1 mid))))"
    using ins whole c1 iff inv pre history_updateOne by blast
next
  assume h: "getAgentAndTypeForStep (currentStep m + 1) = Some (ag', ty')
            \<and> events (snd (tick now llm (IdOk mid) s)) \<noteq> events s
            \<and> (ty' = CHECKPOINT \<longrightarrow> no_override llm)
            \<and> no_later_checkpoint ty' (currentStep m + 1) (history s mid)"
  let ?n = "currentStep m + 1"
  let ?F = "fold_events (history s mid)"
  obtain r0 s1 where ti: "tick_insert now llm (IdOk mid) s = (r0, s1)"
    by (cases "tick_insert now llm (IdOk mid) s")
  from tick_insert_cases[OF m ti]
  show "cache_of (snd (tick now llm (IdOk mid) s)) mid
               = Some (fold_events (history (snd (tick now llm (IdOk mid) s)) mid))
             \<longleftrightarrow> agrees_after ty' ?n (cached m) ?F"
  proof (elim disjE conjE exE)
    fix reply assume same: "s1 = s" and r0: "r0 = Inr (reply, None)"
    have "snd (tick now llm (IdOk mid) s) = s" by (simp add: tick_def ti same r0)
    with h show ?thesis by simp
  next
    fix ag ty sm pl art used
    let ?doc = "tick_eventDoc (oid_counter s) mid now ?n ag ty sm pl used"
    let ?u = "tick_updateFields now ?n ty sm art"
    assume sch: "getAgentAndTypeForStep ?n = Some (ag, ty)"
      and con: "tick_content llm ?n ag ty = (sm, pl, art, used)"
      and s1: "s1 = s\<lparr>oid_counter := Suc (oid_counter s), events := events s @ [?doc]\<rparr>"
      and r0: "r0 = Inr (TickStep ?n used (Some ?doc), Some (mid, ?u))"
    from sch h have ty: "ty = ty'" by simp
    have key: "missionId ?doc = mid" "step ?doc = ?n" "type ?doc = ty"
      by (simp_all add: tick_eventDoc_def)
    have ev: "events s1 = events s @ [?doc]" by (simp add: s1)
    have nl': "no_later_checkpoint (type ?doc) (step ?doc) (history s mid)"
      using h key ty by simp
    have f1: "fold_events (history s1 mid) = fold_step ?F ?doc"
      by (rule fold_history_snoc[OF key(1) ev nl'])
    have t: "snd (tick now llm (IdOk mid) s) = updateOne mid ?u s1"
      by (simp add: tick_def ti r0)
    have art: "ty = CHECKPOINT \<longrightarrow> art = None \<or> art = Some [] \<or> art = Some sm"
      using tick_content_no_override[OF _ con] h ty by blast
    have lt: "currentStep m < ?n" by simp
    have c2: "cache_of (updateOne mid ?u s1) mid = Some (fold_step (cached m) ?doc)"
      using m tick_update_is_fold_step_at[OF sch lt art, of now "oid_counter s" mid pl used]
      by (simp add: cache_of_def updateOne_def s1)
    have e: "agrees_after (type ?doc) (step ?doc) (cached m) ?F
        = agrees_after ty' ?n (cached m) ?F"
      by (simp add: tick_eventDoc_def ty)
    show ?thesis
      by (simp only: t history_updateOne c2 f1 option.inject fold_step_eq_iff e)
  qed
next
  assume h: "cached m = fold_events (history s mid)
            \<and> (\<forall>a. getAgentAndTypeForStep (currentStep m + 1) = Some (a, CHECKPOINT)
                   \<longrightarrow> no_override llm)"
  then have inv: "cached m = fold_events (history s mid)" by simp
  let ?n = "currentStep m + 1"
  obtain r0 s1 where ti: "tick_insert now llm (IdOk mid) s = (r0, s1)"
    by (cases "tick_insert now llm (IdOk mid) s")
  have cur: "currentStep m = agg_currentStep (fold_events (history s mid))"
    using inv by (simp add: cached_def) (metis Aggregate.select_convs(2))
  from tick_insert_cases[OF m ti]
  have "cache_of (snd (tick now llm (IdOk mid) s)) mid
              = Some (fold_events (history (snd (tick now llm (IdOk mid) s)) mid))
      \<and> (\<exists>k. cache_of s1 mid = Some (fold_events (take k (history s1 mid))))"
  proof (elim disjE conjE exE)
    fix reply assume same: "s1 = s" and r0: "r0 = Inr (reply, None)"
    have "snd (tick now llm (IdOk mid) s) = s" by (simp add: tick_def ti same r0)
    moreover have "cache_of s mid = Some (fold_events (history s mid))"
      using m inv by (simp add: cache_of_def)
    moreover have "take (length (history s mid)) (history s mid) = history s mid" by simp
    ultimately show ?thesis using same by metis
  next
    fix ag ty sm pl art used
    let ?doc = "tick_eventDoc (oid_counter s) mid now ?n ag ty sm pl used"
    let ?u = "tick_updateFields now ?n ty sm art"
    assume sch: "getAgentAndTypeForStep ?n = Some (ag, ty)"
      and con: "tick_content llm ?n ag ty = (sm, pl, art, used)"
      and s1: "s1 = s\<lparr>oid_counter := Suc (oid_counter s), events := events s @ [?doc]\<rparr>"
      and r0: "r0 = Inr (TickStep ?n used (Some ?doc), Some (mid, ?u))"
    have key: "missionId ?doc = mid" "step ?doc = ?n" by (simp_all add: tick_eventDoc_def)
    have le: "\<forall>x\<in>set (history s mid). step x \<le> step ?doc"
      using fold_currentStep_ge[of _ "history s mid"] cur key by fastforce
    have h1: "history s1 mid = history s mid @ [?doc]"
      using history_append_own[OF key(1) le] by (simp add: history_def s1)
    have stale: "cache_of s1 mid = Some (fold_events (history s mid))"
      using m inv by (simp add: cache_of_def s1)
    have "take (length (history s mid)) (history s1 mid) = history s mid" by (simp add: h1)
    then have ex: "\<exists>k. cache_of s1 mid = Some (fold_events (take k (history s1 mid)))"
      using stale by metis
    have t: "snd (tick now llm (IdOk mid) s) = updateOne mid ?u s1"
      by (simp add: tick_def ti r0)
    have art: "ty = CHECKPOINT \<longrightarrow> art = None \<or> art = Some [] \<or> art = Some sm"
      using tick_content_no_override[OF _ con] h sch by blast
    have lt: "currentStep m < ?n" by simp
    have "cache_of (updateOne mid ?u s1) mid = Some (fold_events (history s1 mid))"
      using m tick_update_is_fold_step_at[OF sch lt art, of now "oid_counter s" mid pl used]
      by (simp add: cache_of_def updateOne_def s1 h1[unfolded s1] fold_events_snoc
          inv[symmetric])
    then show ?thesis using ex t by (simp add: history_updateOne)
  qed
  then show "cache_of (snd (tick now llm (IdOk mid) s)) mid
              = Some (fold_events (history (snd (tick now llm (IdOk mid) s)) mid))"
    and "\<exists>k. cache_of (snd (tick_insert now llm (IdOk mid) s)) mid
                 = Some (fold_events
                          (take k (history (snd (tick_insert now llm (IdOk mid) s)) mid)))"
    using ti by simp_all
qed

lemma db1_history: "history db1 0 = [seedEvent 1 0 1000]"
  by (simp add: history_def db1_events seedEvent_def)

lemma db1_cached:
  "cached (newMissionDoc 0 ''AI Trends Research Mission'' rm_scripted 1000)
     = fold_events (history db1 0)"
  by (simp add: db1_history cached_def newMissionDoc_def fold_events_def fold_step_def
      initialAggregate_def seedEvent_def)

lemmas body_defs = bodyA_def bodyN3_def bodyN5_def bodyCP2_def bodyCP3_def
lemmas ev_defs = seedEvent_def emit_eventDoc_def mkBody_def
lemmas fold_defs = fold_events_def fold_step_def initialAggregate_def

lemma db_n5_events:
  "events db_n5 = [seedEvent 1 0 1000, emit_eventDoc 2 0 2000 Critic NOTE bodyN5]"
  by (simp add: db_n5_def bodyN5_def run_defs)

lemma db_n5_mission:
  "missions db_n5 0 = Some ((newMissionDoc 0 ''AI Trends Research Mission'' rm_scripted 1000)
      \<lparr>updatedAt := 2000, currentStep := 5\<rparr>)"
  by (simp add: db_n5_def bodyN5_def run_defs)

lemma db_n5_history:
  "history db_n5 0 = [seedEvent 1 0 1000, emit_eventDoc 2 0 2000 Critic NOTE bodyN5]"
  by (simp add: history_def db_n5_events ev_defs body_defs)

lemma db_half_events:
  "events db_half = [seedEvent 1 0 1000, emit_eventDoc 2 0 2000 Planner ASSIGN bodyA]"
  by (simp add: db_half_def bodyA_def run_defs)

lemma db_half_mission:
  "missions db_half 0 = Some (newMissionDoc 0 ''AI Trends Research Mission'' rm_scripted 1000)"
  by (simp add: db_half_def bodyA_def run_defs)

lemma db_half_history:
  "history db_half 0 = [seedEvent 1 0 1000, emit_eventDoc 2 0 2000 Planner ASSIGN bodyA]"
  by (simp add: history_def db_half_events ev_defs body_defs)

lemma valid_bodies:
  "emit_validate bodyA = Inr (0, Planner, ASSIGN)"
  "emit_validate bodyN3 = Inr (0, Critic, NOTE)"
  "emit_validate bodyN5 = Inr (0, Critic, NOTE)"
  by (simp_all add: body_defs mkBody_def emit_validate_def validAgents_def validTypes_def)

theorem cache_after_append_is_fold_witness:
  "cache_of db1 0 = Some (fold_events (history db1 0))
   \<and> cache_of (snd (emitEvent 2000 bodyA db1)) 0
        = Some (fold_events (history (snd (emitEvent 2000 bodyA db1)) 0))
   \<and> cache_of (snd (emit_insert 2000 bodyA db1)) 0
        = Some (fold_events (butlast (history (snd (emit_insert 2000 bodyA db1)) 0)))
   \<and> map step (history db_n5 0) = [1, 5]
   \<and> fst (emitEvent 3000 bodyN3 db_n5) = Inr Accepted
   \<and> cache_of (snd (emitEvent 3000 bodyN3 db_n5)) 0
        = Some (fold_events (history (snd (emitEvent 3000 bodyN3 db_n5)) 0))
   \<and> cache_of (snd (tick 2000 None (IdOk 0) db1)) 0
        = Some (fold_events (history (snd (tick 2000 None (IdOk 0) db1)) 0))
   \<and> cache_of db_half 0 \<noteq> Some (fold_events (history db_half 0))
   \<and> cache_of (snd (emitEvent 3000 bodyN3 db_half)) 0
        = Some (fold_events (history (snd (emitEvent 3000 bodyN3 db_half)) 0))"
proof -
  have h1: "emit_validate bodyA = Inr (0, Planner, ASSIGN)
      \<and> findEvent 0 (body_step bodyA) db1 = None
      \<and> no_later_checkpoint ASSIGN (body_step bodyA) (history db1 0)"
    using valid_bodies
    by (simp add: findEvent_def db1_events no_later_checkpoint_def ev_defs body_defs)
  have above: "\<forall>e\<in>set (history db1 0). step e < body_step bodyA"
    by (simp add: db1_history ev_defs body_defs)
  from cache_after_append_is_fold[OF db1_mission,
      where b = bodyA and ag = Planner and ty = ASSIGN and now = 2000] h1
  obtain u s1 where
    "emit_insert 2000 bodyA db1 = (Inr (Accepted, 0, u), s1)"
    "emitEvent 2000 bodyA db1 = (Inr Accepted, updateOne 0 u s1)"
    "history (updateOne 0 u s1) 0 = history s1 0"
    "cached (newMissionDoc 0 ''AI Trends Research Mission'' rm_scripted 1000)
       = fold_events (history db1 0) \<longrightarrow>
     cache_of (updateOne 0 u s1) 0 = Some (fold_events (history s1 0))"
    "cached (newMissionDoc 0 ''AI Trends Research Mission'' rm_scripted 1000)
       = fold_events (history db1 0)
      \<and> (\<forall>e\<in>set (history db1 0). step e < body_step bodyA) \<longrightarrow>
     cache_of s1 0 = Some (fold_events (butlast (history s1 0)))"
    by blast
  then have a: "cache_of (snd (emitEvent 2000 bodyA db1)) 0
        = Some (fold_events (history (snd (emitEvent 2000 bodyA db1)) 0))
      \<and> cache_of (snd (emit_insert 2000 bodyA db1)) 0
        = Some (fold_events (butlast (history (snd (emit_insert 2000 bodyA db1)) 0)))"
    using db1_cached above by simp
  have inv5: "cached ((newMissionDoc 0 ''AI Trends Research Mission'' rm_scripted 1000)
      \<lparr>updatedAt := 2000, currentStep := 5\<rparr>) = fold_events (history db_n5 0)"
    by (simp add: db_n5_history cached_def newMissionDoc_def fold_defs ev_defs body_defs)
  have h2: "emit_validate bodyN3 = Inr (0, Critic, NOTE)
      \<and> findEvent 0 (body_step bodyN3) db_n5 = None
      \<and> no_later_checkpoint NOTE (body_step bodyN3) (history db_n5 0)"
    using valid_bodies
    by (simp add: findEvent_def db_n5_events no_later_checkpoint_def ev_defs body_defs)
  from cache_after_append_is_fold[OF db_n5_mission,
      where b = bodyN3 and ag = Critic and ty = NOTE and now = 3000] h2
  obtain u2 s2 where
    "emitEvent 3000 bodyN3 db_n5 = (Inr Accepted, updateOne 0 u2 s2)"
    "history (updateOne 0 u2 s2) 0 = history s2 0"
    "cached ((newMissionDoc 0 ''AI Trends Research Mission'' rm_scripted 1000)
        \<lparr>updatedAt := 2000, currentStep := 5\<rparr>) = fold_events (history db_n5 0) \<longrightarrow>
     cache_of (updateOne 0 u2 s2) 0 = Some (fold_events (history s2 0))"
    by blast
  then have b: "fst (emitEvent 3000 bodyN3 db_n5) = Inr Accepted
      \<and> cache_of (snd (emitEvent 3000 bodyN3 db_n5)) 0
        = Some (fold_events (history (snd (emitEvent 3000 bodyN3 db_n5)) 0))"
    using inv5 by simp
  have h3: "cached (newMissionDoc 0 ''AI Trends Research Mission'' rm_scripted 1000)
       = fold_events (history db1 0)
      \<and> (\<forall>a. getAgentAndTypeForStep
             (currentStep (newMissionDoc 0 ''AI Trends Research Mission'' rm_scripted 1000) + 1)
               = Some (a, CHECKPOINT) \<longrightarrow> no_override None)"
    using db1_cached by (simp add: no_override_def)
  from cache_after_append_is_fold[OF db1_mission, where llm = None and now = 2000] h3
  have c: "cache_of (snd (tick 2000 None (IdOk 0) db1)) 0
        = Some (fold_events (history (snd (tick 2000 None (IdOk 0) db1)) 0))"
    by blast
  have stale: "cache_of db_half 0 \<noteq> Some (fold_events (history db_half 0))"
    by (simp add: cache_of_def db_half_mission db_half_history cached_def newMissionDoc_def
        fold_defs ev_defs body_defs)
  have h4: "emit_validate bodyN3 = Inr (0, Critic, NOTE)
      \<and> findEvent 0 (body_step bodyN3) db_half = None
      \<and> no_later_checkpoint NOTE (body_step bodyN3) (history db_half 0)"
    using valid_bodies
    by (simp add: findEvent_def db_half_events no_later_checkpoint_def ev_defs body_defs)
  have ag4: "agrees_after NOTE (body_step bodyN3)
      (cached (newMissionDoc 0 ''AI Trends Research Mission'' rm_scripted 1000))
      (fold_events (history db_half 0))"
    by (simp add: agrees_after_def db_half_history cached_def newMissionDoc_def fold_defs
        ev_defs body_defs)
  from cache_after_append_is_fold[OF db_half_mission,
      where b = bodyN3 and ag = Critic and ty = NOTE and now = 3000] h4
  obtain u4 s4 where
    "emitEvent 3000 bodyN3 db_half = (Inr Accepted, updateOne 0 u4 s4)"
    "history (updateOne 0 u4 s4) 0 = history s4 0"
    "cache_of (updateOne 0 u4 s4) 0 = Some (fold_events (history s4 0))
       \<longleftrightarrow> agrees_after NOTE (body_step bodyN3)
            (cached (newMissionDoc 0 ''AI Trends Research Mission'' rm_scripted 1000))
            (fold_events (history db_half 0))"
    by blast
  then have d: "cache_of (snd (emitEvent 3000 bodyN3 db_half)) 0
        = Some (fold_events (history (snd (emitEvent 3000 bodyN3 db_half)) 0))"
    using ag4 by simp
  have e: "cache_of db1 0 = Some (fold_events (history db1 0))"
    by (simp add: cache_of_def db1_mission db1_cached)
  have f: "map step (history db_n5 0) = [1, 5]"
    by (simp add: db_n5_history ev_defs body_defs)
  show ?thesis using a b c d e f stale by (simp add: db_half_def)
qed

text \<open>
  Three runs on which the cache is not the fold of the history. The first: two accepted
  emits into a fresh mission, a checkpoint at step 3 and then a checkpoint at step 2;
  the cache keeps the text of the checkpoint that arrived last, the fold in step order
  (by either rule) ends with the text of the checkpoint at step 3, and the cache is the
  fold of no prefix of the history.
\<close>

lemma db_late_history:
  "history db_late 0 =
     [seedEvent 1 0 1000,
      emit_eventDoc 3 0 3000 Planner CHECKPOINT bodyCP2,
      emit_eventDoc 2 0 2000 Planner CHECKPOINT bodyCP3]"
  by (simp add: history_def db_late_def bodyCP2_def bodyCP3_def run_defs)

lemma db_late_cache:
  "cache_of db_late 0 =
     Some \<lparr>agg_status = st_running, agg_currentStep = 3, agg_lastCheckpointAt = Some 3000,
           agg_latestSummary = Some ''checkpoint A''\<rparr>"
  by (simp add: cache_of_def cached_def db_late_def bodyCP2_def bodyCP3_def run_defs)

lemma late_checkpoint_overwrites_cache:
  "fst (emitEvent 2000 bodyCP3 db1) = Inr Accepted
   \<and> fst (emitEvent 3000 bodyCP2 (snd (emitEvent 2000 bodyCP3 db1))) = Inr Accepted
   \<and> map step (history db_late 0) = [1, 2, 3]
   \<and> map_option agg_latestSummary (cache_of db_late 0) = Some (Some ''checkpoint A'')
   \<and> agg_latestSummary (fold_events (history db_late 0)) = Some ''checkpoint B''
   \<and> agg_latestSummary (spec_fold_events (history db_late 0)) = Some ''checkpoint B''
   \<and> cache_of db_late 0 \<noteq> Some (fold_events (history db_late 0))
   \<and> cache_of db_late 0 \<noteq> Some (fold_events (take 2 (history db_late 0)))
   \<and> cache_of db_late 0 \<noteq> Some (fold_events (take 1 (history db_late 0)))
   \<and> cache_of db_late 0 \<noteq> Some (fold_events (take 0 (history db_late 0)))"
proof -
  have a: "fst (emitEvent 2000 bodyCP3 db1) = Inr Accepted
   \<and> fst (emitEvent 3000 bodyCP2 (snd (emitEvent 2000 bodyCP3 db1))) = Inr Accepted"
    by (simp add: bodyCP2_def bodyCP3_def run_defs)
  have b: "map step (history db_late 0) = [1, 2, 3]
   \<and> agg_latestSummary (fold_events (history db_late 0)) = Some ''checkpoint B''
   \<and> agg_latestSummary (spec_fold_events (history db_late 0)) = Some ''checkpoint B''"
    by (simp add: db_late_history seedEvent_def emit_eventDoc_def bodyCP2_def bodyCP3_def
        mkBody_def fold_events_def fold_step_def spec_fold_events_def spec_fold_step_def
        initialAggregate_def)
  have c: "cache_of db_late 0 \<noteq> Some (fold_events (history db_late 0))
   \<and> cache_of db_late 0 \<noteq> Some (fold_events (take 2 (history db_late 0)))
   \<and> cache_of db_late 0 \<noteq> Some (fold_events (take 1 (history db_late 0)))
   \<and> cache_of db_late 0 \<noteq> Some (fold_events (take 0 (history db_late 0)))"
    by (simp add: db_late_cache db_late_history seedEvent_def emit_eventDoc_def bodyCP2_def
        bodyCP3_def mkBody_def fold_events_def fold_step_def initialAggregate_def)
  show ?thesis using a b c by (simp add: db_late_cache)
qed

text \<open>
  The second: the process dies between the two writes of a checkpoint emit at step 2,
  so the cache lags, being the fold of the first event alone. A complete emit of a note
  at step 3 follows, in step order. The cache then holds step 3 and no checkpoint; it
  is the fold of no prefix of the history.
\<close>

lemma db_crash_events:
  "events db_crash = [seedEvent 1 0 1000, emit_eventDoc 2 0 2000 Planner CHECKPOINT bodyCP2]"
  by (simp add: db_crash_def bodyCP2_def run_defs)

lemma db_crash_mission:
  "missions db_crash 0 = Some (newMissionDoc 0 ''AI Trends Research Mission'' rm_scripted 1000)"
  by (simp add: db_crash_def bodyCP2_def run_defs)

lemma db_crash_counter: "oid_counter db_crash = 3"
  by (simp add: db_crash_def bodyCP2_def run_defs)

lemma db_crash_next_history:
  "history db_crash_next 0 =
     [seedEvent 1 0 1000,
      emit_eventDoc 2 0 2000 Planner CHECKPOINT bodyCP2,
      emit_eventDoc 3 0 3000 Critic NOTE bodyN3]"
  by (simp add: history_def db_crash_next_def emitEvent_def emit_insert_def emit_validate_def
      validAgents_def validTypes_def new_ObjectId_def insertOne_def findEvent_def updateOne_def
      db_crash_events db_crash_mission db_crash_counter ev_defs body_defs)

lemma db_crash_next_cache:
  "cache_of db_crash_next 0 =
     Some \<lparr>agg_status = st_running, agg_currentStep = 3, agg_lastCheckpointAt = None,
           agg_latestSummary = None\<rparr>"
  by (simp add: cache_of_def cached_def db_crash_next_def emitEvent_def emit_insert_def
      emit_validate_def validAgents_def validTypes_def new_ObjectId_def insertOne_def
      findEvent_def updateOne_def apply_set_def emit_updateFields_def
      db_crash_events db_crash_mission db_crash_counter ev_defs body_defs newMissionDoc_def)

lemma stale_cache_is_not_repaired:
  "fst (emitEvent 3000 bodyN3 db_crash) = Inr Accepted
   \<and> map step (history db_crash 0) = [1, 2]
   \<and> map step (history db_crash_next 0) = [1, 2, 3]
   \<and> cache_of db_crash 0 = Some (fold_events (take 1 (history db_crash 0)))
   \<and> cache_of db_crash_next 0 \<noteq> Some (fold_events (history db_crash_next 0))
   \<and> cache_of db_crash_next 0 \<noteq> Some (fold_events (take 2 (history db_crash_next 0)))
   \<and> cache_of db_crash_next 0 \<noteq> Some (fold_events (take 1 (history db_crash_next 0)))
   \<and> cache_of db_crash_next 0 \<noteq> Some (fold_events (take 0 (history db_crash_next 0)))"
proof -
  have a: "fst (emitEvent 3000 bodyN3 db_crash) = Inr Accepted"
    by (simp add: emitEvent_def emit_insert_def emit_validate_def validAgents_def
        validTypes_def new_ObjectId_def insertOne_def findEvent_def
        db_crash_events db_crash_mission ev_defs body_defs)
  have b: "map step (history db_crash 0) = [1, 2]
      \<and> cache_of db_crash 0 = Some (fold_events (take 1 (history db_crash 0)))"
    by (simp add: history_def cache_of_def cached_def db_crash_events db_crash_mission
        newMissionDoc_def fold_defs ev_defs body_defs)
  have c: "map step (history db_crash_next 0) = [1, 2, 3]
      \<and> cache_of db_crash_next 0 \<noteq> Some (fold_events (history db_crash_next 0))
      \<and> cache_of db_crash_next 0 \<noteq> Some (fold_events (take 2 (history db_crash_next 0)))
      \<and> cache_of db_crash_next 0 \<noteq> Some (fold_events (take 1 (history db_crash_next 0)))
      \<and> cache_of db_crash_next 0 \<noteq> Some (fold_events (take 0 (history db_crash_next 0)))"
    by (simp add: db_crash_next_cache db_crash_next_history fold_defs ev_defs body_defs)
  show ?thesis using a b c by simp
qed

text \<open>
  The third: four ticks bring a fresh mission to step 5 with its cache equal to the
  fold. At the checkpoint step 6 the generator answers with a summary and with an
  artifact of its own; the handler stores the summary in the event and the artifact in
  the cache.
\<close>

lemma db5_events:
  "map (\<lambda>e. (event_id e, missionId e, step e, type e)) (events db5)
     = [(1, 0, 1, PLAN), (2, 0, 2, ASSIGN), (3, 0, 3, TOOL_CALL), (4, 0, 4, TOOL_RESULT),
        (5, 0, 5, NOTE)]"
  by (simp add: db5_def run_defs tick_defs)

lemma db5_cache_is_fold: "cache_of db5 0 = Some (fold_events (history db5 0))"
  by (simp add: cache_of_def cached_def history_def fold_defs db5_def run_defs tick_defs)

lemma db_over_history:
  "map (\<lambda>e. (step e, type e, summary e)) (drop 5 (history db_over 0))
     = [(6, CHECKPOINT, ''generated summary'')]
   \<and> length (history db_over 0) = 6"
  by (simp add: history_def db_over_def llm_over_def db5_def run_defs tick_defs)

lemma db_over_cache:
  "map_option agg_latestSummary (cache_of db_over 0) = Some (Some ''generated artifact'')
   \<and> map_option agg_currentStep (cache_of db_over 0) = Some 6"
  by (simp add: cache_of_def cached_def db_over_def llm_over_def db5_def run_defs tick_defs)

lemma db_over_fold:
  "agg_latestSummary (fold_events (history db_over 0)) = Some ''generated summary''"
  by (simp add: history_def fold_defs db_over_def llm_over_def db5_def run_defs tick_defs)

lemma generated_artifact_is_cached:
  "cache_of db5 0 = Some (fold_events (history db5 0))
   \<and> length (history db_over 0) = 6
   \<and> map_option agg_currentStep (cache_of db_over 0) = Some 6
   \<and> map_option agg_latestSummary (cache_of db_over 0) = Some (Some ''generated artifact'')
   \<and> agg_latestSummary (fold_events (history db_over 0)) = Some ''generated summary''
   \<and> cache_of db_over 0 \<noteq> Some (fold_events (history db_over 0))"
proof -
  have "cache_of db_over 0 \<noteq> Some (fold_events (history db_over 0))"
    using db_over_cache db_over_fold by auto
  then show ?thesis using db5_cache_is_fold db_over_history db_over_cache db_over_fold by simp
qed

theorem cache_is_not_always_fold:
  "cache_of db_late 0 \<noteq> Some (fold_events (history db_late 0))
   \<and> cache_of db_late 0 \<noteq> Some (fold_events (take 2 (history db_late 0)))
   \<and> cache_of db_late 0 \<noteq> Some (fold_events (take 1 (history db_late 0)))
   \<and> cache_of db_late 0 \<noteq> Some (fold_events (take 0 (history db_late 0)))
   \<and> agg_latestSummary (spec_fold_events (history db_late 0)) = Some ''checkpoint B''
   \<and> map_option agg_latestSummary (cache_of db_late 0) = Some (Some ''checkpoint A'')
   \<and> fst (emitEvent 3000 bodyN3 db_crash) = Inr Accepted
   \<and> cache_of db_crash_next 0 \<noteq> Some (fold_events (history db_crash_next 0))
   \<and> cache_of db_crash_next 0 \<noteq> Some (fold_events (take 2 (history db_crash_next 0)))
   \<and> cache_of db_crash_next 0 \<noteq> Some (fold_events (take 1 (history db_crash_next 0)))
   \<and> cache_of db_crash_next 0 \<noteq> Some (fold_events (take 0 (history db_crash_next 0)))
   \<and> cache_of db5 0 = Some (fold_events (history db5 0))
   \<and> cache_of db_over 0 \<noteq> Some (fold_events (history db_over 0))"
  using late_checkpoint_overwrites_cache stale_cache_is_not_repaired
    generated_artifact_is_cached
  by blast

text \<open>
  With two emit handlers interleaved the counter can even move down: a note at step 5
  and a note at step 3 are both inserted before either mission update; each update was
  computed from the current step 1 that its handler had read, and the later one sets
  the current step to 3.
\<close>

lemma db_race_state:
  "map step (history db_race 0) = [1, 3, 5]
   \<and> map_option agg_currentStep (cache_of db_race 0) = Some 3
   \<and> agg_currentStep (fold_events (history db_race 0)) = 5"
  by (simp add: history_def cache_of_def cached_def fold_defs db_race_def run_defs body_defs)

theorem interleaved_emits_lower_currentStep:
  "map step (history db_race 0) = [1, 3, 5]
   \<and> map_option agg_currentStep (cache_of db_race 0) = Some 3
   \<and> agg_currentStep (fold_events (history db_race 0)) = 5
   \<and> cache_of db_race 0 \<noteq> Some (fold_events (history db_race 0))"
proof -
  have "cache_of db_race 0 \<noteq> Some (fold_events (history db_race 0))"
    using db_race_state by auto
  then show ?thesis using db_race_state by simp
qed

section \<open>Forking (claims C5 and C6)\<close>

lemma insertMany_ok:
  assumes "\<forall>c\<in>set cs. missionId c = n" and "distinct (map step cs)"
    and "\<forall>e\<in>set (events s). missionId e = n \<longrightarrow> step e \<notin> step ` set cs"
  shows "insertMany cs s = (True, s\<lparr>events := events s @ cs\<rparr>)"
  using assms
proof (induction cs arbitrary: s)
  case Nil
  then show ?case by simp
next
  case (Cons c cs)
  have free: "findEvent (missionId c) (step c) s = None"
    using Cons.prems(1,3) by (auto simp: findEvent_def find_None_iff)
  then have one: "insertOne c s = Some (s\<lparr>events := events s @ [c]\<rparr>)"
    by (simp add: insertOne_def)
  have "insertMany cs (s\<lparr>events := events s @ [c]\<rparr>)
      = (True, (s\<lparr>events := events s @ [c]\<rparr>)\<lparr>events := events (s\<lparr>events := events s @ [c]\<rparr>) @ cs\<rparr>)"
    using Cons.prems by (intro Cons.IH) auto
  then show ?case using one by simp
qed

lemma distinct_map_sort_key:
  "distinct (map f (sort_key f xs)) = distinct (map f xs)"
  by (simp add: distinct_map)

lemma sorted_last_Max:
  assumes "sorted (map f xs)" and "xs \<noteq> []"
  shows "f (last xs) = Max (f ` set xs)"
proof -
  have "\<forall>x\<in>set xs. f x \<le> f (last xs)"
    using assms
  proof (induction xs)
    case Nil
    then show ?case by simp
  next
    case (Cons a xs)
    then show ?case by (cases "xs = []") auto
  qed
  moreover have "f (last xs) \<in> f ` set xs" using assms(2) by simp
  ultimately show ?thesis
    by (intro Max_eqI[symmetric]) auto
qed


lemma set_parentEventsUpTo:
  "set (parentEventsUpTo pid k s) = {e \<in> set (events s). missionId e = pid \<and> step e \<le> k}"
  by (auto simp: parentEventsUpTo_def)

lemma fork_success:
  assumes p: "missions s pid = Some p" and k: "1 \<le> k"
    and idx: "distinct (map step (filter (\<lambda>e. missionId e = pid) (events s)))"
    and fresh: "\<forall>e\<in>set (events s). missionId e < oid_counter s \<and> event_id e < oid_counter s"
    and ne: "parentEventsUpTo pid k s \<noteq> []"
  shows "\<exists>cs. forkMission now \<lparr>parentMissionId = IdOk pid, forkStep = k\<rparr> s =
           (Inr (oid_counter s),
            \<lparr>missions = (missions s)(oid_counter s \<mapsto>
                 forkMissionDoc (oid_counter s) pid p (parentEventsUpTo pid k s) now),
             events = events s @ cs,
             oid_counter = Suc (oid_counter s) + length (parentEventsUpTo pid k s)\<rparr>)
         \<and> length cs = length (parentEventsUpTo pid k s)
         \<and> (\<forall>i<length cs. cs ! i
               = forkedEvent (Suc (oid_counter s) + i) (oid_counter s)
                   (parentEventsUpTo pid k s ! i))"
proof -
  let ?n = "oid_counter s"
  let ?pe = "parentEventsUpTo pid k s"
  let ?s2 = "insertMission (forkMissionDoc ?n pid p ?pe now) (s\<lparr>oid_counter := Suc ?n\<rparr>)"
  obtain cs s3 where f: "forkedEvents ?n ?pe ?s2 = (cs, s3)"
    by (cases "forkedEvents ?n ?pe ?s2")
  from forkedEvents_spec[OF f]
  have s3: "s3 = ?s2\<lparr>oid_counter := oid_counter ?s2 + length ?pe\<rparr>"
    and len: "length cs = length ?pe"
    and nth: "\<forall>i<length ?pe. cs ! i = forkedEvent (oid_counter ?s2 + i) ?n (?pe ! i)"
    by simp_all
  have c2: "oid_counter ?s2 = Suc ?n" by (simp add: insertMission_def)
  have ev3: "events s3 = events s" by (simp add: s3 insertMission_def)
  have mid: "\<forall>c\<in>set cs. missionId c = ?n"
    using nth len by (auto simp: in_set_conv_nth forkedEvent_def)
  have steps: "map step cs = map step ?pe"
    using nth len by (auto simp: list_eq_iff_nth_eq forkedEvent_def)
  have "distinct (map step (filter (\<lambda>e. missionId e = pid \<and> step e \<le> k) (events s)))"
    using distinct_map_filter[OF idx, of "\<lambda>e. step e \<le> k"] by (simp add: conj_commute)
  then have "distinct (map step ?pe)"
    by (simp add: parentEventsUpTo_def distinct_map_sort_key)
  then have dst: "distinct (map step cs)" by (simp add: steps)
  have none: "\<forall>e\<in>set (events s3). missionId e = ?n \<longrightarrow> step e \<notin> step ` set cs"
    using fresh ev3 by auto
  have many: "insertMany cs s3 = (True, s3\<lparr>events := events s3 @ cs\<rparr>)"
    by (rule insertMany_ok[OF mid dst none])
  have "forkMission now \<lparr>parentMissionId = IdOk pid, forkStep = k\<rparr> s
      = (Inr ?n, s3\<lparr>events := events s3 @ cs\<rparr>)"
    using p k ne f many by (simp add: forkMission_def Let_def new_ObjectId_def)
  moreover have "s3\<lparr>events := events s3 @ cs\<rparr>
      = \<lparr>missions = (missions s)(?n \<mapsto> forkMissionDoc ?n pid p ?pe now),
         events = events s @ cs, oid_counter = Suc ?n + length ?pe\<rparr>"
    by (simp add: s3 insertMission_def forkMissionDoc_def Let_def)
  ultimately show ?thesis using len nth c2 by auto
qed

lemma fork_new_history:
  assumes fresh: "\<forall>e\<in>set (events s). missionId e < oid_counter s \<and> event_id e < oid_counter s"
    and len: "length cs = length pe"
    and nth: "\<forall>i<length cs. cs ! i = forkedEvent (Suc (oid_counter s) + i) (oid_counter s) (pe ! i)"
    and srt: "sorted (map step pe)"
    and ev: "events s' = events s @ cs"
  shows "history s' (oid_counter s) = cs"
proof -
  have mid: "\<forall>c\<in>set cs. missionId c = oid_counter s"
    using nth by (auto simp: in_set_conv_nth forkedEvent_def)
  have steps: "map step cs = map step pe"
    using nth len by (auto simp: list_eq_iff_nth_eq forkedEvent_def)
  have a: "filter (\<lambda>e. missionId e = oid_counter s) (events s) = []"
    using fresh by (auto simp: filter_empty_conv)
  have b: "filter (\<lambda>e. missionId e = oid_counter s) cs = cs"
    using mid by (simp add: filter_id_conv)
  show ?thesis
    using srt by (simp add: history_def ev a b sort_key_id_if_sorted steps)
qed


lemma forked_content:
  assumes len: "length cs = length pe"
    and nth: "\<forall>i<length cs. cs ! i = forkedEvent (Suc n + i) n (pe ! i)"
  shows "map event_content cs = map event_content pe"
    and "\<forall>c\<in>set cs. missionId c = n \<and> n < event_id c"
    and "distinct (map event_id cs)"
proof -
  show "map event_content cs = map event_content pe"
    using len nth by (auto simp: list_eq_iff_nth_eq forkedEvent_def event_content_def)
  show "\<forall>c\<in>set cs. missionId c = n \<and> n < event_id c"
    using nth by (auto simp: in_set_conv_nth forkedEvent_def)
  have "\<forall>i<length cs. event_id (cs ! i) = Suc n + i"
    using nth by (simp add: forkedEvent_def)
  then show "distinct (map event_id cs)"
    by (simp add: distinct_conv_nth)
qed

lemma fold_step_content:
  "event_content x = event_content y \<Longrightarrow> fold_step a x = fold_step a y"
  by (simp add: event_content_def fold_step_def)

lemma foldl_fold_step_content:
  "map event_content xs = map event_content ys \<Longrightarrow> foldl fold_step a xs = foldl fold_step a ys"
proof (induction xs arbitrary: ys a)
  case Nil
  then show ?case by simp
next
  case (Cons x xs)
  then obtain y ys' where ys: "ys = y # ys'" by (cases ys) auto
  with Cons.prems have "event_content x = event_content y"
    and "map event_content xs = map event_content ys'" by simp_all
  then show ?case using Cons.IH[of ys' "fold_step a y"] ys by (simp add: fold_step_content[of x y])
qed

lemma db_cp_events:
  "events db_cp = [seedEvent 1 0 1000, emit_eventDoc 2 0 2000 Planner CHECKPOINT bodyCP2]"
  by (simp add: db_cp_def bodyCP2_def run_defs)

lemma db_cp_mission:
  "missions db_cp 0 = Some ((newMissionDoc 0 ''AI Trends Research Mission'' rm_scripted 1000)
      \<lparr>updatedAt := 2000, currentStep := 2, lastCheckpointAt := Some 2000,
        latestSummary := Some ''checkpoint A''\<rparr>)"
  by (simp add: db_cp_def bodyCP2_def run_defs)

lemma db_cp_counter: "oid_counter db_cp = 3"
  by (simp add: db_cp_def bodyCP2_def run_defs)

lemmas fork_defs = forkMission_def parentEventsUpTo_def forkMissionDoc_def forkedEvent_def
  new_ObjectId_def insertMission_def insertOne_def findEvent_def Let_def

lemma db_cp_fork_early:
  "forkMission 5000 fork_early db_cp =
     (Inr 3,
      \<lparr>missions = (missions db_cp)(3 \<mapsto>
          \<lparr>mission_id = 3, title = ''AI Trends Research Mission (fork)'', status = st_running,
           currentStep = 1, createdAt = 5000, updatedAt = 5000, lastCheckpointAt = None,
           latestSummary = Some ''checkpoint A'', branchFromMissionId = Some 0,
           branchFromStep = Some 1, runMode = None\<rparr>),
       events = events db_cp @ [forkedEvent 4 3 (seedEvent 1 0 1000)],
       oid_counter = 5\<rparr>)"
  by (simp add: fork_defs fork_early_def db_cp_events db_cp_mission db_cp_counter seedEvent_def
      emit_eventDoc_def bodyCP2_def mkBody_def newMissionDoc_def)




lemma db_done_all_events:
  "events db_done =
     [seedEvent 1 0 1000,
      emit_eventDoc 2 0 2000 Planner DONE (mkBody 0 2 ''Planner'' ''DONE'' ''finished early'')]"
  by (simp add: db_done_def run_defs)

lemma db_done_counter: "oid_counter db_done = 3"
  by (simp add: db_done_def run_defs)








text \<open>
  Claim C6, as the handler has it. For every successful fork the new mission is
  running, whatever the parent's status; its current step and its branch step are the
  largest copied step and its branch parent is the parent; its \<open>lastCheckpointAt\<close> is
  that of the fold of the copied events, absent when they hold no checkpoint; its
  \<open>latestSummary\<close> is that of the fold of the copied events when that is a non-empty
  text, and otherwise the parent's own cached \<open>latestSummary\<close>.
\<close>

theorem fork_aggregate_of_copied_prefix:
  assumes p: "missions s pid = Some p" and k: "1 \<le> k"
    and idx: "distinct (map step (filter (\<lambda>e. missionId e = pid) (events s)))"
    and fresh: "\<forall>e\<in>set (events s). missionId e < oid_counter s \<and> event_id e < oid_counter s"
    and ex: "\<exists>e\<in>set (events s). missionId e = pid \<and> step e \<le> k"
  shows "\<exists>s' m'. forkMission now \<lparr>parentMissionId = IdOk pid, forkStep = k\<rparr> s
                    = (Inr (oid_counter s), s')
           \<and> missions s' (oid_counter s) = Some m'
           \<and> status m' = st_running
           \<and> currentStep m' = Max (set (map step (filter (\<lambda>e. missionId e = pid \<and> step e \<le> k) (events s))))
           \<and> branchFromMissionId m' = Some pid
           \<and> branchFromStep m' = Some (currentStep m')
           \<and> lastCheckpointAt m'
               = agg_lastCheckpointAt (fold_events (history s' (oid_counter s)))
           \<and> latestSummary m'
               = (case agg_latestSummary (fold_events (history s' (oid_counter s))) of
                    None \<Rightarrow> latestSummary p
                  | Some x \<Rightarrow> if x \<noteq> [] then Some x else latestSummary p)"
proof -
  let ?n = "oid_counter s"
  let ?pe = "parentEventsUpTo pid k s"
  let ?doc = "forkMissionDoc ?n pid p ?pe now"
  from ex have ne: "?pe \<noteq> []"
    using set_parentEventsUpTo[of pid k s] by (metis (mono_tags, lifting) empty_iff mem_Collect_eq set_empty)
  from fork_success[OF p k idx fresh ne, of now]
  obtain cs where fk: "forkMission now \<lparr>parentMissionId = IdOk pid, forkStep = k\<rparr> s =
           (Inr ?n,
            \<lparr>missions = (missions s)(?n \<mapsto> ?doc),
             events = events s @ cs, oid_counter = Suc ?n + length ?pe\<rparr>)"
    and len: "length cs = length ?pe"
    and nth: "\<forall>i<length cs. cs ! i = forkedEvent (Suc ?n + i) ?n (?pe ! i)"
    by blast
  let ?s' = "\<lparr>missions = (missions s)(?n \<mapsto> ?doc),
             events = events s @ cs, oid_counter = Suc ?n + length ?pe\<rparr>"
  have srt: "sorted (map step ?pe)" by (simp add: parentEventsUpTo_def)
  have hnew: "history ?s' ?n = cs"
    by (rule fork_new_history[OF fresh len nth srt]) simp
  have "map event_content cs = map event_content ?pe" by (rule forked_content(1)[OF len nth])
  then have fold_eq: "fold_events (history ?s' ?n) = fold_events ?pe"
    unfolding hnew fold_events_def by (rule foldl_fold_step_content)
  note cp = foldl_fold_step_checkpoint[of initialAggregate ?pe, folded fold_events_def]
  have a: "status ?doc = st_running" "branchFromMissionId ?doc = Some pid"
    "branchFromStep ?doc = Some (currentStep ?doc)"
    by (simp_all add: forkMissionDoc_def Let_def)
  have b: "currentStep ?doc = Max (set (map step (filter (\<lambda>e. missionId e = pid \<and> step e \<le> k) (events s))))"
    using sorted_last_Max[OF srt ne]
    by (simp add: forkMissionDoc_def Let_def) (simp add: parentEventsUpTo_def)
  have c: "lastCheckpointAt ?doc = agg_lastCheckpointAt (fold_events (history ?s' ?n))"
    unfolding fold_eq using cp
    by (simp add: forkMissionDoc_def Let_def initialAggregate_def split: option.splits)
  have d: "latestSummary ?doc
               = (case agg_latestSummary (fold_events (history ?s' ?n)) of
                    None \<Rightarrow> latestSummary p
                  | Some x \<Rightarrow> if x \<noteq> [] then Some x else latestSummary p)"
    unfolding fold_eq using cp
    by (simp add: forkMissionDoc_def Let_def initialAggregate_def split: option.splits)
  have m': "missions ?s' ?n = Some ?doc" by simp
  show ?thesis using fk m' a b c d by blast
qed


theorem fork_aggregate_of_copied_prefix_witness:
  "map_option status (missions db_done 0) = Some st_done
   \<and> (\<exists>s' m'. forkMission 5000 fork_far db_done = (Inr 3, s')
         \<and> missions s' 3 = Some m' \<and> status m' = st_running \<and> currentStep m' = 2
         \<and> branchFromMissionId m' = Some 0 \<and> branchFromStep m' = Some 2)"
proof -
  have k: "(1::int) \<le> 20" by simp
  have idx: "distinct (map step (filter (\<lambda>e. missionId e = 0) (events db_done)))"
    by (simp add: db_done_all_events seedEvent_def emit_eventDoc_def mkBody_def)
  have fresh: "\<forall>e\<in>set (events db_done). missionId e < oid_counter db_done
      \<and> event_id e < oid_counter db_done"
    by (simp add: db_done_all_events db_done_counter seedEvent_def emit_eventDoc_def)
  have ex: "\<exists>e\<in>set (events db_done). missionId e = 0 \<and> step e \<le> 20"
    by (simp add: db_done_all_events seedEvent_def)
  have mx: "Max (set (map step (filter (\<lambda>e. missionId e = 0 \<and> step e \<le> 20) (events db_done))))
      = 2"
    by (simp add: db_done_all_events seedEvent_def emit_eventDoc_def mkBody_def)
  from fork_aggregate_of_copied_prefix[OF db_done_mission k idx fresh ex, of 5000]
  have "\<exists>s' m'. forkMission 5000 fork_far db_done = (Inr 3, s')
         \<and> missions s' 3 = Some m' \<and> status m' = st_running \<and> currentStep m' = 2
         \<and> branchFromMissionId m' = Some 0 \<and> branchFromStep m' = Some 2"
    unfolding mx db_done_counter fork_far_def by metis
  then show ?thesis by (simp add: db_done_mission)
qed

text \<open>
  The parent has a checkpoint at step 2 and is forked at step 1: the copied prefix holds
  no checkpoint and the new mission has no \<open>lastCheckpointAt\<close>, yet its \<open>latestSummary\<close>
  is the parent's checkpoint text.
\<close>

theorem fork_before_checkpoint_inherits_summary:
  "fst (forkMission 5000 fork_early db_cp) = Inr 3
   \<and> map type (history (snd (forkMission 5000 fork_early db_cp)) 3) = [PLAN]
   \<and> agg_latestSummary (fold_events (history (snd (forkMission 5000 fork_early db_cp)) 3)) = None
   \<and> map_option lastCheckpointAt (missions (snd (forkMission 5000 fork_early db_cp)) 3)
        = Some None
   \<and> map_option latestSummary (missions (snd (forkMission 5000 fork_early db_cp)) 3)
        = Some (Some ''checkpoint A'')"
  by (simp add: db_cp_fork_early history_def db_cp_events seedEvent_def emit_eventDoc_def
      forkedEvent_def fold_events_def fold_step_def initialAggregate_def)


end
